theory Spec2Isabelle
  imports Main "HOL-Library.Word"
begin

section \<open>Stream aggregation glue of vminsert (app/vminsert/common/streamaggr.go)\<close>

text \<open>
  The file connects the ingestion path to the aggregation engine of lib/streamaggr:
  it owns the process-wide pointer to the active set of aggregators, reloads it on SIGHUP,
  converts batches of metric rows into time series for the engine, and writes the
  engine's output back to storage.

  Go values are modelled by value: a byte slice and a string are both \<open>string\<close>
  (a list of bytes), a slice is a list, \<open>int64\<close> and \<open>uint64\<close> are 64-bit words, and a
  \<open>float64\<close> is its IEEE-754 bit pattern (the file only copies floats).
  A panic and \<open>logger.Fatalf\<close> are error results. Calls that leave the file
  (logging, the engine, storage) are recorded, in program order, in a trace.
\<close>

subsection \<open>Data\<close>

type_synonym byte = "8 word"
type_synonym int64 = "64 word"
type_synonym uint64 = "64 word"
type_synonym float64 = "64 word"

text \<open>prompbmarshal.Label, prompbmarshal.Sample, prompbmarshal.TimeSeries\<close>

record Label =
  Name :: string
  Value :: string

record Sample =
  Value_sample :: float64
  Timestamp_sample :: int64

record TimeSeries =
  Labels :: "Label list"
  Samples :: "Sample list"

text \<open>storage.Tag, storage.MetricName, storage.MetricRow\<close>

record Tag =
  Key :: string
  Value_tag :: string

record MetricName =
  MetricGroup :: string
  Tags :: "Tag list"

record MetricRow =
  MetricNameRaw :: string
  Timestamp_mr :: int64
  Value_mr :: float64

text \<open>
  A \<open>*streamaggr.Aggregators\<close>. The object is immutable after construction; \<open>addr\<close> is
  its identity (two instances loaded from the same file content differ in \<open>addr\<close> only),
  \<open>configData\<close> the parsed rules it was built from. The nil pointer is \<open>None\<close> at type
  \<open>Aggregators option\<close>.
\<close>

record Aggregators =
  addr :: nat
  configData :: string

datatype error =
    Panic string
  | Fatal string
  | Blocked

datatype chan = NilChan | OpenChan | ClosedChan

text \<open>
  The trace: one event per call of the logger, of the engine (\<open>LoadFromFile\<close>, and
  \<open>Push\<close> and \<open>MustStop\<close> with the pointer they are called on, nil included), of the row
  builder and of storage, and one per write of the process-wide pointer.
\<close>

datatype event =
    Infof string
  | Errorf string
  | LoadFromFile_ok Aggregators
  | LoadFromFile_err string
  | Store_sasGlobal "Aggregators option"
  | Swap_sasGlobal "Aggregators option"
  | Aggregators_Push_call "Aggregators option" "TimeSeries list" "byte list"
  | Aggregators_MustStop_call "Aggregators option"
  | Close_saCfgReloaderStopCh
  | Reloader_started
  | Reloader_exited
  | WriteDataPoint_call "Label list" int64 float64
  | AddRows_call "MetricRow list"

text \<open>
  The package-level variables, together with the allocation counter of the instances
  and the trace.  \<open>saCfgSuccess\<close> is a float gauge that only ever holds 0 or 1.
\<close>

record world =
  sasGlobal :: "Aggregators option"
  saCfgReloads :: uint64
  saCfgReloadErr :: uint64
  saCfgSuccess :: int
  saCfgTimestamp :: uint64
  saCfgReloaderStopCh :: chan
  saCfgReloaderWG :: int
  reloaderRunning :: bool
  allocs :: nat
  trace :: "event list"

text \<open>The state of the process before \<open>InitStreamAggr\<close>: every variable has its zero value.\<close>

definition world0 :: world where
  "world0 = \<lparr>sasGlobal = None, saCfgReloads = 0, saCfgReloadErr = 0, saCfgSuccess = 0,
     saCfgTimestamp = 0, saCfgReloaderStopCh = NilChan, saCfgReloaderWG = 0,
     reloaderRunning = False, allocs = 0, trace = []\<rparr>"

definition emit :: "event \<Rightarrow> world \<Rightarrow> world" where
  "emit e w = w\<lparr>trace := trace w @ [e]\<rparr>"

record flags =
  streamAggrConfig :: string
  streamAggrDedupInterval :: int64

subsection \<open>The engine, as this file uses it\<close>

text \<open>
  Modelled from the spec: \<open>streamaggr.LoadFromFile\<close> (lib/streamaggr): "load rule set
  from config source (returns a RuleSetInstance or a parse error)". What the file holds at the moment of the call is the parameter
  \<open>parsed\<close>: \<open>Inl\<close> the parse error, \<open>Inr\<close> the rules. A successful load constructs a new
  instance.
\<close>

definition LoadFromFile :: "string + string \<Rightarrow> world \<Rightarrow> (string + Aggregators) \<times> world" where
  "LoadFromFile parsed w =
     (case parsed of
        Inl err \<Rightarrow> (Inl err, emit (LoadFromFile_err err) w)
      | Inr rules \<Rightarrow>
          (let sas = \<lparr>addr = allocs w, configData = rules\<rparr>
           in (Inr sas, emit (LoadFromFile_ok sas) (w\<lparr>allocs := allocs w + 1\<rparr>))))"

text \<open>
  Modelled from the spec: \<open>Aggregators.Equal\<close>: "compare the new candidate against the
  current active instance for structural equality (same rules, same options)"; the
  options are the same flags at every load. No instance equals the nil pointer.
\<close>

definition Equal :: "Aggregators \<Rightarrow> Aggregators option \<Rightarrow> bool" where
  "Equal a b = (case b of None \<Rightarrow> False | Some b' \<Rightarrow> configData a = configData b')"

text \<open>
  Modelled from the spec: \<open>Aggregators.MustStop\<close>: "stop() on a RuleSetInstance
  (blocking)". It returns; called on the nil pointer it has no instance to stop. The
  state of a stopped instance belongs to the engine, the call is all that is recorded.
\<close>

definition MustStop :: "Aggregators option \<Rightarrow> world \<Rightarrow> world" where
  "MustStop sas w = emit (Aggregators_MustStop_call sas) w"

text \<open>
  Modelled from the spec: \<open>Aggregators.Push\<close>: "push(batch, bitmap) -> populated bitmap",
  the bitmap being "populated by the rule set to flag which rows matched an aggregation
  rule". Which series a rule set matches is the parameter \<open>matches\<close>. Called on the nil
  pointer (aggregation disabled) it has no rule set to flag anything: "a bitmap of the
  correct length with no entries flagged".
\<close>

definition Aggregators_Push ::
  "(Aggregators \<Rightarrow> TimeSeries \<Rightarrow> bool) \<Rightarrow> Aggregators option \<Rightarrow> TimeSeries list \<Rightarrow> byte list
     \<Rightarrow> world \<Rightarrow> byte list \<times> world" where
  "Aggregators_Push matches sas tss0 matchIdxs w =
     (let w = emit (Aggregators_Push_call sas tss0 matchIdxs) w
      in case sas of
           None \<Rightarrow> (matchIdxs, w)
         | Some a \<Rightarrow> (map2 (\<lambda>ts b. if matches a ts then 1 else b) tss0 matchIdxs, w))"

text \<open>
  Modelled from the spec: \<open>bytesutil.ResizeNoCopyMayOverallocate\<close>: "allocate (or reuse
  without copy) a MatchBitmap sized to the batch's RowSeries count". The result has
  \<open>n\<close> entries; the entries beyond the old length hold whatever the memory held
  (\<open>stale\<close>).
\<close>

definition ResizeNoCopyMayOverallocate :: "byte \<Rightarrow> byte list \<Rightarrow> nat \<Rightarrow> byte list" where
  "ResizeNoCopyMayOverallocate stale b n = take n b @ replicate (n - length b) stale"

subsection \<open>streamAggrCtx\<close>

record streamAggrCtx =
  mn :: MetricName
  tss :: "TimeSeries list"
  labels :: "Label list"
  samples :: "Sample list"
  buf :: string

text \<open>
  \<open>Reset\<close>: the slices are cut to length 0. Modelled from the spec: \<open>MetricName.Reset\<close>
  (lib/storage), which resets the "decoded-identity scratch": the name is empty after it.
\<close>

definition Reset :: "streamAggrCtx \<Rightarrow> streamAggrCtx" where
  "Reset ctx = ctx\<lparr>mn := \<lparr>MetricGroup = [], Tags = []\<rparr>, tss := [], labels := [],
     samples := [], buf := []\<rparr>"

text \<open>
  The inner loop of \<open>push\<close> over \<open>mn.Tags\<close>. A string made by
  \<open>bytesutil.ToUnsafeString(buf[bufLen:])\<close> is the part of \<open>buf\<close> from \<open>bufLen\<close> on, as
  it is at that moment.
\<close>

fun push_tags :: "Tag list \<Rightarrow> Label list \<times> string \<Rightarrow> Label list \<times> string" where
  "push_tags [] (ls, b) = (ls, b)"
| "push_tags (tag # tags) (ls, b) =
     (let bufLen = length b;
          b = b @ Key tag;
          name = drop bufLen b;
          bufLen = length b;
          b = b @ Value_tag tag;
          val = drop bufLen b;
          ls = ls @ [\<lparr>Name = name, Value = val\<rparr>]
      in push_tags tags (ls, b))"

text \<open>
  The loop of \<open>push\<close> over the rows. \<open>UnmarshalRaw\<close> (lib/storage) is a parameter: it
  decodes the raw name of a row into the scratch \<open>mn\<close> or fails, and a failure is
  \<open>logger.Panicf\<close>. The loop variables \<open>tss\<close>, \<open>labels\<close>, \<open>samples\<close>, \<open>buf\<close> are the
  fields of the context, which the source writes back right after the loop.
\<close>

fun push_rows ::
  "(string \<Rightarrow> string + MetricName) \<Rightarrow> MetricRow list \<Rightarrow> streamAggrCtx \<Rightarrow> error + streamAggrCtx" where
  "push_rows UnmarshalRaw [] ctx = Inr ctx"
| "push_rows UnmarshalRaw (mr # mrs) ctx =
     (case UnmarshalRaw (MetricNameRaw mr) of
        Inl err \<Rightarrow> Inl (Panic (''BUG: cannot unmarshal recently marshaled MetricName: '' @ err))
      | Inr m \<Rightarrow>
          (let labelsLen = length (labels ctx);
               bufLen = length (buf ctx);
               b = buf ctx @ MetricGroup m;
               metricGroup = drop bufLen b;
               ls = labels ctx @ [\<lparr>Name = ''__name__'', Value = metricGroup\<rparr>];
               (ls, b) = push_tags (Tags m) (ls, b);
               samplesLen = length (samples ctx);
               ss = samples ctx @ [\<lparr>Value_sample = Value_mr mr, Timestamp_sample = Timestamp_mr mr\<rparr>];
               ts = tss ctx @ [\<lparr>Labels = drop labelsLen ls, Samples = drop samplesLen ss\<rparr>]
           in push_rows UnmarshalRaw mrs
                (ctx\<lparr>mn := m, tss := ts, labels := ls, samples := ss, buf := b\<rparr>)))"

text \<open>The loop \<open>for i := 0; i < len(matchIdxs); i++ { matchIdxs[i] = 0 }\<close>.\<close>

function zero_loop :: "nat \<Rightarrow> byte list \<Rightarrow> byte list" where
  "zero_loop i matchIdxs =
     (if i < length matchIdxs then zero_loop (i + 1) (matchIdxs[i := 0]) else matchIdxs)"
  by pat_completeness auto
termination
  by (relation "measure (\<lambda>(i, matchIdxs). length matchIdxs - i)") auto

declare zero_loop.simps [simp del]

definition push ::
  "(string \<Rightarrow> string + MetricName) \<Rightarrow> (Aggregators \<Rightarrow> TimeSeries \<Rightarrow> bool) \<Rightarrow> byte
     \<Rightarrow> world \<Rightarrow> streamAggrCtx \<Rightarrow> MetricRow list \<Rightarrow> byte list
     \<Rightarrow> error + (byte list \<times> streamAggrCtx \<times> world)" where
  "push UnmarshalRaw matches stale w ctx mrs matchIdxs =
     (let tssLen = length (tss ctx)
      in case push_rows UnmarshalRaw mrs ctx of
           Inl e \<Rightarrow> Inl e
         | Inr ctx \<Rightarrow>
             (let tss0 = drop tssLen (tss ctx);
                  matchIdxs = ResizeNoCopyMayOverallocate stale matchIdxs (length tss0);
                  matchIdxs = zero_loop 0 matchIdxs;
                  sas = sasGlobal w;
                  (matchIdxs, w) = Aggregators_Push matches sas tss0 matchIdxs w;
                  ctx = Reset ctx
              in Inr (matchIdxs, ctx, w)))"

subsection \<open>Loading, reloading and stopping the aggregators\<close>

text \<open>
  \<open>InitStreamAggr\<close>. \<open>parsed\<close> is what \<open>-streamAggr.config\<close> holds when it is read and
  \<open>now\<close> is \<open>fasttime.UnixTimestamp()\<close>. The goroutine started at the end is the
  reloader; \<open>reloaderRunning\<close> records that it exists.
\<close>

definition InitStreamAggr :: "flags \<Rightarrow> string + string \<Rightarrow> uint64 \<Rightarrow> world \<Rightarrow> error + world" where
  "InitStreamAggr fl parsed now w =
     (let w = w\<lparr>saCfgReloaderStopCh := OpenChan\<rparr>
      in if streamAggrConfig fl = [] then Inr w
         else
           (let (res, w) = LoadFromFile parsed w
            in case res of
                 Inl err \<Rightarrow>
                   Inl (Fatal (''cannot load -streamAggr.config='' @ streamAggrConfig fl @ '': '' @ err))
               | Inr sas \<Rightarrow>
                   (let w = emit (Store_sasGlobal (Some sas)) (w\<lparr>sasGlobal := Some sas\<rparr>);
                        w = w\<lparr>saCfgSuccess := 1\<rparr>;
                        w = w\<lparr>saCfgTimestamp := now\<rparr>;
                        w = w\<lparr>saCfgReloaderWG := saCfgReloaderWG w + 1\<rparr>;
                        w = emit Reloader_started (w\<lparr>reloaderRunning := True\<rparr>)
                    in Inr w)))"

definition reloadStreamAggrConfig :: "flags \<Rightarrow> string + string \<Rightarrow> uint64 \<Rightarrow> world \<Rightarrow> world" where
  "reloadStreamAggrConfig fl parsed now w =
     (let w = emit (Infof (''reloading -streamAggr.config='' @ streamAggrConfig fl)) w;
          w = w\<lparr>saCfgReloads := saCfgReloads w + 1\<rparr>;
          (res, w) = LoadFromFile parsed w
      in case res of
           Inl err \<Rightarrow>
             (let w = w\<lparr>saCfgSuccess := 0\<rparr>;
                  w = w\<lparr>saCfgReloadErr := saCfgReloadErr w + 1\<rparr>
              in emit (Errorf (''cannot reload -streamAggr.config='' @ streamAggrConfig fl
                     @ '': use the previously loaded config; error: '' @ err)) w)
         | Inr sasNew \<Rightarrow>
             (let sas = sasGlobal w;
                  w = (if \<not> Equal sasNew sas
                       then
                         (let sasOld = sasGlobal w;
                              w = emit (Swap_sasGlobal (Some sasNew)) (w\<lparr>sasGlobal := Some sasNew\<rparr>);
                              w = MustStop sasOld w
                          in emit (Infof (''successfully reloaded stream aggregation config at -streamAggr.config=''
                                 @ streamAggrConfig fl)) w)
                       else
                         (let w = emit (Infof (''nothing changed in -streamAggr.config=''
                                 @ streamAggrConfig fl)) w
                          in MustStop (Some sasNew) w));
                  w = w\<lparr>saCfgSuccess := 1\<rparr>
              in w\<lparr>saCfgTimestamp := now\<rparr>))"

text \<open>
  The reloader goroutine, run on the signals it receives in order: a SIGHUP (with what
  the config file holds and the clock at that moment) or the closing of
  \<open>saCfgReloaderStopCh\<close>. It is sequential, so no two reloads overlap. On an empty
  list it is still waiting in \<open>select\<close>.
\<close>

datatype signal = Sighup "string + string" uint64 | StopCh_closed

fun reloader :: "flags \<Rightarrow> signal list \<Rightarrow> world \<Rightarrow> world" where
  "reloader fl [] w = w"
| "reloader fl (StopCh_closed # sigs) w =
     emit Reloader_exited (w\<lparr>saCfgReloaderWG := saCfgReloaderWG w - 1, reloaderRunning := False\<rparr>)"
| "reloader fl (Sighup parsed now # sigs) w =
     reloader fl sigs (reloadStreamAggrConfig fl parsed now w)"

text \<open>
  \<open>MustStopStreamAggr\<close>. Closing a nil or a closed channel panics. A running reloader
  sees the closed channel and returns; \<open>saCfgReloaderWG.Wait()\<close> returns once the
  counter is zero and blocks otherwise.
\<close>

definition MustStopStreamAggr :: "flags \<Rightarrow> world \<Rightarrow> error + world" where
  "MustStopStreamAggr fl w =
     (case saCfgReloaderStopCh w of
        NilChan \<Rightarrow> Inl (Panic ''close of nil channel'')
      | ClosedChan \<Rightarrow> Inl (Panic ''close of closed channel'')
      | OpenChan \<Rightarrow>
          (let w = emit Close_saCfgReloaderStopCh (w\<lparr>saCfgReloaderStopCh := ClosedChan\<rparr>);
               w = (if reloaderRunning w then reloader fl [StopCh_closed] w else w)
           in if saCfgReloaderWG w \<noteq> 0 then Inl Blocked
              else
                (let sas = sasGlobal w;
                     w = emit (Swap_sasGlobal None) (w\<lparr>sasGlobal := None\<rparr>)
                 in Inr (MustStop sas w))))"

subsection \<open>Writing the aggregated series back: pushAggregateSeries\<close>

text \<open>
  \<open>InsertCtx\<close> is declared in insert_ctx.go of the same package; of its
  fields the function uses \<open>Labels\<close>, \<open>mrs\<close> and \<open>skipStreamAggr\<close>.
\<close>

record InsertCtx =
  Labels_ctx :: "Label list"
  mrs_ctx :: "MetricRow list"
  skipStreamAggr :: bool

text \<open>\<open>var ctx InsertCtx\<close>: the zero value.\<close>

definition InsertCtx0 :: InsertCtx where
  "InsertCtx0 = \<lparr>Labels_ctx = [], mrs_ctx = [], skipStreamAggr = False\<rparr>"

text \<open>
  Modelled from the spec: \<open>InsertCtx.Reset\<close>, \<open>InsertCtx.AddLabel\<close> and
  \<open>InsertCtx.WriteDataPoint\<close>, the "row-builder form": the labels collected for a
  series are built into one row, "Build one RawRow per RowSeries into an accumulating
  batch", and building may fail. How the labels are encoded into the raw name of the row
  is the parameter \<open>marshalMetricNameRaw\<close> (\<open>Inl\<close> the error). The row builder only
  collects: "Only if the entire batch was built without error does the batch get
  forwarded to the storage write API". \<open>Reset\<close> starts an empty batch.
\<close>

definition InsertCtx_Reset :: "nat \<Rightarrow> InsertCtx \<Rightarrow> InsertCtx" where
  "InsertCtx_Reset rowsLen ctx = ctx\<lparr>Labels_ctx := [], mrs_ctx := []\<rparr>"

definition AddLabel :: "string \<Rightarrow> string \<Rightarrow> InsertCtx \<Rightarrow> InsertCtx" where
  "AddLabel name val ctx = ctx\<lparr>Labels_ctx := Labels_ctx ctx @ [\<lparr>Name = name, Value = val\<rparr>]\<rparr>"

definition WriteDataPoint ::
  "(Label list \<Rightarrow> string + string) \<Rightarrow> Label list \<Rightarrow> int64 \<Rightarrow> float64 \<Rightarrow> InsertCtx
     \<Rightarrow> string option \<times> InsertCtx" where
  "WriteDataPoint marshalMetricNameRaw ls timestamp val ctx =
     (case marshalMetricNameRaw ls of
        Inl err \<Rightarrow> (Some err, ctx)
      | Inr raw \<Rightarrow>
          (None, ctx\<lparr>mrs_ctx := mrs_ctx ctx
             @ [\<lparr>MetricNameRaw = raw, Timestamp_mr = timestamp, Value_mr = val\<rparr>]\<rparr>))"

text \<open>The loop over the labels of one series.\<close>

fun add_labels :: "Label list \<Rightarrow> InsertCtx \<Rightarrow> InsertCtx" where
  "add_labels [] ctx = ctx"
| "add_labels (label # ls) ctx =
     (let name = Name label;
          name = (if name = ''__name__'' then [] else name)
      in add_labels ls (AddLabel name (Value label) ctx))"

text \<open>
  The loop over the series. \<open>ts.Samples[0]\<close> panics on a series without samples. The
  result says whether the loop ran to its end (\<open>True\<close>) or left the function by the
  \<open>return\<close> after a failed row (\<open>False\<close>).
\<close>

fun build_rows ::
  "(Label list \<Rightarrow> string + string) \<Rightarrow> int64 \<Rightarrow> TimeSeries list \<Rightarrow> InsertCtx \<Rightarrow> event list
     \<Rightarrow> error + (bool \<times> InsertCtx \<times> event list)" where
  "build_rows marshalMetricNameRaw currentTimestamp [] ctx evs = Inr (True, ctx, evs)"
| "build_rows marshalMetricNameRaw currentTimestamp (ts # rest) ctx evs =
     (let ctx = ctx\<lparr>Labels_ctx := []\<rparr>;
          ctx = add_labels (Labels ts) ctx
      in case Samples ts of
           [] \<Rightarrow> Inl (Panic ''index out of range [0] with length 0'')
         | s # _ \<Rightarrow>
             (let val = Value_sample s;
                  evs = evs @ [WriteDataPoint_call (Labels_ctx ctx) currentTimestamp val];
                  (err, ctx) = WriteDataPoint marshalMetricNameRaw (Labels_ctx ctx) currentTimestamp val ctx
              in case err of
                   Some e \<Rightarrow> Inr (False, ctx, evs @ [Errorf (''cannot store aggregate series: '' @ e)])
                 | None \<Rightarrow> build_rows marshalMetricNameRaw currentTimestamp rest ctx evs))"

text \<open>
  \<open>pushAggregateSeries\<close>. \<open>now\<close> is \<open>fasttime.UnixTimestamp()\<close>, the wall clock in whole
  seconds; the conversion to \<open>int64\<close> keeps the bits and the product wraps.
  \<open>AddRows\<close> is \<open>vmstorage.AddRows\<close>, which may fail. The result is the local context
  as the function leaves it and the calls it made.
\<close>

definition pushAggregateSeries ::
  "(Label list \<Rightarrow> string + string) \<Rightarrow> (MetricRow list \<Rightarrow> string option) \<Rightarrow> uint64
     \<Rightarrow> TimeSeries list \<Rightarrow> error + (InsertCtx \<times> event list)" where
  "pushAggregateSeries marshalMetricNameRaw AddRows now tss0 =
     (let currentTimestamp = now * 1000;
          ctx = InsertCtx0;
          ctx = InsertCtx_Reset (length tss0) ctx;
          ctx = ctx\<lparr>skipStreamAggr := True\<rparr>
      in case build_rows marshalMetricNameRaw currentTimestamp tss0 ctx [] of
           Inl e \<Rightarrow> Inl e
         | Inr (False, ctx, evs) \<Rightarrow> Inr (ctx, evs)
         | Inr (True, ctx, evs) \<Rightarrow>
             (let evs = evs @ [AddRows_call (mrs_ctx ctx)]
              in case AddRows (mrs_ctx ctx) of
                   Some e \<Rightarrow> Inr (ctx, evs @ [Errorf (''cannot flush aggregate series: '' @ e)])
                 | None \<Rightarrow> Inr (ctx, evs)))"

subsection \<open>The reload among concurrent pushes\<close>

text \<open>
  The place of the reloader in \<open>reloadStreamAggrConfig\<close>: one constructor per statement
  still to run, with the local variables (\<open>sasNew\<close>, \<open>sas\<close>, \<open>sasOld\<close>, \<open>err\<close>) that are
  live there.
\<close>

datatype reload_pc =
    R_start
  | R_inc
  | R_load_file
  | R_err_gauge string
  | R_err_inc string
  | R_err_log string
  | R_load Aggregators
  | R_equal Aggregators "Aggregators option"
  | R_swap Aggregators
  | R_stop_old "Aggregators option"
  | R_log_ok
  | R_log_same Aggregators
  | R_stop_new Aggregators
  | R_gauge
  | R_timestamp
  | R_done

text \<open>
  One statement of \<open>reloadStreamAggrConfig\<close> at a time. \<open>sasGlobal.Load()\<close> and
  \<open>sasGlobal.Swap(sasNew)\<close> are single steps: that is what \<open>atomic.Pointer\<close> provides, and
  the file touches the pointer through its methods only.
\<close>

fun reload_step :: "flags \<Rightarrow> string + string \<Rightarrow> uint64 \<Rightarrow> reload_pc \<times> world \<Rightarrow> reload_pc \<times> world" where
  "reload_step fl parsed now (R_start, w) =
     (R_inc, emit (Infof (''reloading -streamAggr.config='' @ streamAggrConfig fl)) w)"
| "reload_step fl parsed now (R_inc, w) = (R_load_file, w\<lparr>saCfgReloads := saCfgReloads w + 1\<rparr>)"
| "reload_step fl parsed now (R_load_file, w) =
     (case LoadFromFile parsed w of
        (Inl err, w) \<Rightarrow> (R_err_gauge err, w)
      | (Inr sasNew, w) \<Rightarrow> (R_load sasNew, w))"
| "reload_step fl parsed now (R_err_gauge err, w) = (R_err_inc err, w\<lparr>saCfgSuccess := 0\<rparr>)"
| "reload_step fl parsed now (R_err_inc err, w) =
     (R_err_log err, w\<lparr>saCfgReloadErr := saCfgReloadErr w + 1\<rparr>)"
| "reload_step fl parsed now (R_err_log err, w) =
     (R_done, emit (Errorf (''cannot reload -streamAggr.config='' @ streamAggrConfig fl
                     @ '': use the previously loaded config; error: '' @ err)) w)"
| "reload_step fl parsed now (R_load sasNew, w) = (R_equal sasNew (sasGlobal w), w)"
| "reload_step fl parsed now (R_equal sasNew sas, w) =
     (if \<not> Equal sasNew sas then (R_swap sasNew, w) else (R_log_same sasNew, w))"
| "reload_step fl parsed now (R_swap sasNew, w) =
     (R_stop_old (sasGlobal w), emit (Swap_sasGlobal (Some sasNew)) (w\<lparr>sasGlobal := Some sasNew\<rparr>))"
| "reload_step fl parsed now (R_stop_old sasOld, w) = (R_log_ok, MustStop sasOld w)"
| "reload_step fl parsed now (R_log_ok, w) =
     (R_gauge, emit (Infof (''successfully reloaded stream aggregation config at -streamAggr.config=''
                            @ streamAggrConfig fl)) w)"
| "reload_step fl parsed now (R_log_same sasNew, w) =
     (R_stop_new sasNew, emit (Infof (''nothing changed in -streamAggr.config='' @ streamAggrConfig fl)) w)"
| "reload_step fl parsed now (R_stop_new sasNew, w) = (R_gauge, MustStop (Some sasNew) w)"
| "reload_step fl parsed now (R_gauge, w) = (R_timestamp, w\<lparr>saCfgSuccess := 1\<rparr>)"
| "reload_step fl parsed now (R_timestamp, w) = (R_done, w\<lparr>saCfgTimestamp := now\<rparr>)"
| "reload_step fl parsed now (R_done, w) = (R_done, w)"

text \<open>
  The part of \<open>push\<close> that touches shared state, after the rows of the batch have been
  converted in the caller's own context: the load of the pointer, then the call of
  \<open>Push\<close> on what was loaded, with the zeroed bitmap.
\<close>

datatype push_pc = P_start | P_loaded "Aggregators option" | P_done "byte list"

fun push_step ::
  "(Aggregators \<Rightarrow> TimeSeries \<Rightarrow> bool) \<Rightarrow> TimeSeries list \<Rightarrow> push_pc \<times> world \<Rightarrow> push_pc \<times> world" where
  "push_step matches batch (P_start, w) = (P_loaded (sasGlobal w), w)"
| "push_step matches batch (P_loaded sas, w) =
     (let (matchIdxs, w) = Aggregators_Push matches sas batch (replicate (length batch) 0) w
      in (P_done matchIdxs, w))"
| "push_step matches batch (P_done matchIdxs, w) = (P_done matchIdxs, w)"

text \<open>
  The reloader and any number of pushing goroutines, each with its batch, over the
  package-level variables. A schedule is the list of who takes the next step: 0 is the
  reloader, \<open>i + 1\<close> is pusher \<open>i\<close>. \<open>run\<close> gives every state the program passes through.
\<close>

record gstate =
  reloader_pc :: reload_pc
  pushers :: "(TimeSeries list \<times> push_pc) list"
  shared :: world

fun gstep ::
  "flags \<Rightarrow> string + string \<Rightarrow> uint64 \<Rightarrow> (Aggregators \<Rightarrow> TimeSeries \<Rightarrow> bool) \<Rightarrow> nat \<Rightarrow> gstate \<Rightarrow> gstate" where
  "gstep fl parsed now matches 0 g =
     (let (pc, w) = reload_step fl parsed now (reloader_pc g, shared g)
      in g\<lparr>reloader_pc := pc, shared := w\<rparr>)"
| "gstep fl parsed now matches (Suc i) g =
     (if i < length (pushers g)
      then
        (let (batch, pc) = pushers g ! i;
             (pc, w) = push_step matches batch (pc, shared g)
         in g\<lparr>pushers := (pushers g)[i := (batch, pc)], shared := w\<rparr>)
      else g)"

fun run ::
  "flags \<Rightarrow> string + string \<Rightarrow> uint64 \<Rightarrow> (Aggregators \<Rightarrow> TimeSeries \<Rightarrow> bool) \<Rightarrow> nat list \<Rightarrow> gstate
     \<Rightarrow> gstate list" where
  "run fl parsed now matches [] g = [g]"
| "run fl parsed now matches (t # sched) g = g # run fl parsed now matches sched (gstep fl parsed now matches t g)"

subsection \<open>The specification's side\<close>

text \<open>
  The series the specification describes for a row with the decoded name \<open>m\<close>: the label
  \<open>__name__\<close> with the metric group, one label per tag in order, one sample with the
  row's timestamp and value.
\<close>

definition tag_label :: "Tag \<Rightarrow> Label" where
  "tag_label tag = \<lparr>Name = Key tag, Value = Value_tag tag\<rparr>"

definition row_series :: "MetricRow \<Rightarrow> MetricName \<Rightarrow> TimeSeries" where
  "row_series mr m =
     \<lparr>Labels = \<lparr>Name = ''__name__'', Value = MetricGroup m\<rparr> # map tag_label (Tags m),
      Samples = [\<lparr>Value_sample = Value_mr mr, Timestamp_sample = Timestamp_mr mr\<rparr>]\<rparr>"

definition decodes :: "(string \<Rightarrow> string + MetricName) \<Rightarrow> MetricRow \<Rightarrow> bool" where
  "decodes UnmarshalRaw mr = (case UnmarshalRaw (MetricNameRaw mr) of Inl err \<Rightarrow> False | Inr m \<Rightarrow> True)"

text \<open>
  The labels the specification describes for a row built from an aggregated series: the
  label \<open>__name__\<close> becomes the metric group, which is the label with the empty name, and
  every other label is kept as a tag.
\<close>

definition row_label :: "Label \<Rightarrow> Label" where
  "row_label label = \<lparr>Name = (if Name label = ''__name__'' then [] else Name label), Value = Value label\<rparr>"

definition builds :: "(Label list \<Rightarrow> string + string) \<Rightarrow> TimeSeries \<Rightarrow> bool" where
  "builds marshalMetricNameRaw ts =
     (case marshalMetricNameRaw (map row_label (Labels ts)) of Inl err \<Rightarrow> False | Inr raw \<Rightarrow> True)"

definition first_sample_only :: "TimeSeries \<Rightarrow> TimeSeries" where
  "first_sample_only ts = ts\<lparr>Samples := take 1 (Samples ts)\<rparr>"

text \<open>
  A decoder for the examples: it knows the raw names of \<open>cpu{host="a"}\<close> and
  \<open>cpu{host="b"}\<close> and fails on every other input.
\<close>

definition example_UnmarshalRaw :: "string \<Rightarrow> string + MetricName" where
  "example_UnmarshalRaw raw =
     (if raw = ''cpu|host=a'' then Inr \<lparr>MetricGroup = ''cpu'', Tags = [\<lparr>Key = ''host'', Value_tag = ''a''\<rparr>]\<rparr>
      else if raw = ''cpu|host=b'' then Inr \<lparr>MetricGroup = ''cpu'', Tags = [\<lparr>Key = ''host'', Value_tag = ''b''\<rparr>]\<rparr>
      else Inl ''cannot unmarshal'')"

definition example_rows :: "MetricRow list" where
  "example_rows =
     [\<lparr>MetricNameRaw = ''cpu|host=a'', Timestamp_mr = 1000, Value_mr = 0x3FF0000000000000\<rparr>,
      \<lparr>MetricNameRaw = ''cpu|host=b'', Timestamp_mr = 2000, Value_mr = 0x4000000000000000\<rparr>]"

definition streamAggrCtx0 :: streamAggrCtx where
  "streamAggrCtx0 = \<lparr>mn = \<lparr>MetricGroup = [], Tags = []\<rparr>, tss = [], labels = [], samples = [], buf = []\<rparr>"

text \<open>
  The call of \<open>WriteDataPoint\<close> the writer makes for a series, the relation between a
  built row and its series, and the panic of an index out of range.
\<close>

definition attempt :: "int64 \<Rightarrow> TimeSeries \<Rightarrow> event" where
  "attempt currentTimestamp ts =
     WriteDataPoint_call (map row_label (Labels ts)) currentTimestamp (Value_sample (hd (Samples ts)))"

definition row_of :: "(Label list \<Rightarrow> string + string) \<Rightarrow> int64 \<Rightarrow> MetricRow \<Rightarrow> TimeSeries \<Rightarrow> bool" where
  "row_of marshalMetricNameRaw currentTimestamp r ts =
     (marshalMetricNameRaw (map row_label (Labels ts)) = Inr (MetricNameRaw r)
      \<and> Timestamp_mr r = currentTimestamp
      \<and> (case Samples ts of [] \<Rightarrow> False | s # ss \<Rightarrow> Value_mr r = Value_sample s))"

definition index_panic :: error where
  "index_panic = Panic ''index out of range [0] with length 0''"

text \<open>Values for the examples.\<close>

definition example_flags :: flags where
  "example_flags = \<lparr>streamAggrConfig = ''aggr.yml'', streamAggrDedupInterval = 0\<rparr>"

definition no_config_flags :: flags where
  "no_config_flags = \<lparr>streamAggrConfig = [], streamAggrDedupInterval = 0\<rparr>"

definition example_active :: Aggregators where
  "example_active = \<lparr>addr = 0, configData = ''rules''\<rparr>"

definition example_world :: world where
  "example_world = world0\<lparr>sasGlobal := Some example_active, saCfgSuccess := 1,
     saCfgTimestamp := 1700000000, saCfgReloaderStopCh := OpenChan, saCfgReloaderWG := 1,
     reloaderRunning := True, allocs := 1,
     trace := [LoadFromFile_ok example_active, Store_sasGlobal (Some example_active), Reloader_started]\<rparr>"

definition example_matches :: "Aggregators \<Rightarrow> TimeSeries \<Rightarrow> bool" where
  "example_matches a ts = (\<lparr>Name = ''host'', Value = ''a''\<rparr> \<in> set (Labels ts))"

text \<open>
  The local context of \<open>pushAggregateSeries\<close> as it enters the loop: reset, and marked to
  skip stream aggregation.
\<close>

definition ctx_start :: "nat \<Rightarrow> InsertCtx" where
  "ctx_start n = (InsertCtx_Reset n InsertCtx0)\<lparr>skipStreamAggr := True\<rparr>"

text \<open>
  An encoder for the examples, which fails on the label \<open>le="bad"\<close>, and an aggregated
  series with two samples.
\<close>

definition example_marshal :: "Label list \<Rightarrow> string + string" where
  "example_marshal ls =
     (if \<lparr>Name = ''le'', Value = ''bad''\<rparr> \<in> set ls then Inl ''cannot marshal''
      else Inr (concat (map (\<lambda>l. Name l @ ''='' @ Value l @ '';'') ls)))"

definition example_series :: "string \<Rightarrow> TimeSeries" where
  "example_series le =
     \<lparr>Labels = [\<lparr>Name = ''__name__'', Value = ''cpu:1m_total''\<rparr>, \<lparr>Name = ''le'', Value = le\<rparr>],
      Samples = [\<lparr>Value_sample = 0x3FF0000000000000, Timestamp_sample = 1000\<rparr>,
                 \<lparr>Value_sample = 0x4000000000000000, Timestamp_sample = 2000\<rparr>]\<rparr>"

definition empty_series :: TimeSeries where
  "empty_series = \<lparr>Labels = [\<lparr>Name = ''__name__'', Value = ''cpu:1m_total''\<rparr>], Samples = []\<rparr>"

definition example_AddRows :: "MetricRow list \<Rightarrow> string option" where
  "example_AddRows rows = None"

text \<open>
  What holds at each place of a reload that installs \<open>cand\<close> over \<open>old\<close>, with \<open>before\<close> the
  trace at its start: the value of the pointer, and that \<open>MustStop\<close> has not been called
  on \<open>old\<close> up to and including the place where it is about to be. The places of the
  other two branches are not reached.
\<close>

definition quiet :: "Aggregators \<Rightarrow> event list \<Rightarrow> world \<Rightarrow> bool" where
  "quiet old before w =
     (take (length before) (trace w) = before
      \<and> Aggregators_MustStop_call (Some old) \<notin> set (drop (length before) (trace w)))"

fun reload_inv :: "Aggregators \<Rightarrow> Aggregators \<Rightarrow> event list \<Rightarrow> reload_pc \<Rightarrow> world \<Rightarrow> bool" where
  "reload_inv old cand before R_start w =
     (sasGlobal w = Some old \<and> allocs w = addr cand \<and> quiet old before w)"
| "reload_inv old cand before R_inc w =
     (sasGlobal w = Some old \<and> allocs w = addr cand \<and> quiet old before w)"
| "reload_inv old cand before R_load_file w =
     (sasGlobal w = Some old \<and> allocs w = addr cand \<and> quiet old before w)"
| "reload_inv old cand before (R_load sasNew) w =
     (sasNew = cand \<and> sasGlobal w = Some old \<and> quiet old before w)"
| "reload_inv old cand before (R_equal sasNew sas) w =
     (sasNew = cand \<and> sas = Some old \<and> sasGlobal w = Some old \<and> quiet old before w)"
| "reload_inv old cand before (R_swap sasNew) w =
     (sasNew = cand \<and> sasGlobal w = Some old \<and> quiet old before w)"
| "reload_inv old cand before (R_stop_old sasOld) w =
     (sasOld = Some old \<and> sasGlobal w = Some cand \<and> quiet old before w)"
| "reload_inv old cand before R_log_ok w = (sasGlobal w = Some cand)"
| "reload_inv old cand before R_gauge w = (sasGlobal w = Some cand)"
| "reload_inv old cand before R_timestamp w = (sasGlobal w = Some cand)"
| "reload_inv old cand before R_done w = (sasGlobal w = Some cand)"
| "reload_inv old cand before pc w = False"

fun push_inv :: "Aggregators \<Rightarrow> Aggregators \<Rightarrow> push_pc \<Rightarrow> bool" where
  "push_inv old cand (P_loaded sas) = (sas = Some old \<or> sas = Some cand)"
| "push_inv old cand pc = True"

definition ginv :: "Aggregators \<Rightarrow> Aggregators \<Rightarrow> event list \<Rightarrow> gstate \<Rightarrow> bool" where
  "ginv old cand before g =
     (reload_inv old cand before (reloader_pc g) (shared g)
      \<and> list_all (\<lambda>p. push_inv old cand (snd p)) (pushers g))"

text \<open>Every call of \<open>Push\<close> made since \<open>before\<close> is on \<open>old\<close> or on \<open>cand\<close>.\<close>

definition pushes_bound :: "Aggregators \<Rightarrow> Aggregators \<Rightarrow> event list \<Rightarrow> world \<Rightarrow> bool" where
  "pushes_bound old cand before w =
     (take (length before) (trace w) = before
      \<and> list_all (\<lambda>e. case e of
                        Aggregators_Push_call sas batch matchIdxs \<Rightarrow> sas = Some old \<or> sas = Some cand
                      | _ \<Rightarrow> True)
           (drop (length before) (trace w)))"

text \<open>
  A reload of new rules with two pushers: the first loads and pushes before the swap,
  the second after it.
\<close>

definition example_g :: gstate where
  "example_g = \<lparr>reloader_pc = R_start,
                 pushers = [([example_series ''1''], P_start), ([example_series ''2''], P_start)],
                 shared = example_world\<rparr>"

definition example_schedule :: "nat list" where
  "example_schedule = [1, 0, 0, 0, 0, 0, 1, 0, 2, 0, 2, 0, 0, 0]"

section \<open>Properties\<close>

subsection \<open>The loops of push\<close>

lemma push_tags_eq:
  "push_tags tags (ls, b)
     = (ls @ map tag_label tags, b @ concat (map (\<lambda>tag. Key tag @ Value_tag tag) tags))"
  by (induction tags arbitrary: ls b) (simp_all add: Let_def tag_label_def)

lemma push_rows_decoded:
  "map (\<lambda>mr. UnmarshalRaw (MetricNameRaw mr)) mrs = map Inr ms \<Longrightarrow>
   \<exists>ctx'. push_rows UnmarshalRaw mrs ctx = Inr ctx' \<and> tss ctx' = tss ctx @ map2 row_series mrs ms"
proof (induction mrs arbitrary: ctx ms)
  case Nil
  then show ?case by simp
next
  case (Cons mr mrs)
  from Cons.prems obtain m ms' where ms: "ms = m # ms'"
    and m: "UnmarshalRaw (MetricNameRaw mr) = Inr m"
    and rest: "map (\<lambda>mr. UnmarshalRaw (MetricNameRaw mr)) mrs = map Inr ms'"
    by (cases ms) auto
  define ctx1 where "ctx1 = ctx\<lparr>mn := m, tss := tss ctx @ [row_series mr m],
      labels := labels ctx @ Labels (row_series mr m),
      samples := samples ctx @ Samples (row_series mr m),
      buf := buf ctx @ MetricGroup m @ concat (map (\<lambda>tag. Key tag @ Value_tag tag) (Tags m))\<rparr>"
  have step: "push_rows UnmarshalRaw (mr # mrs) ctx = push_rows UnmarshalRaw mrs ctx1"
    using m by (simp add: Let_def push_tags_eq row_series_def ctx1_def)
  obtain ctx' where "push_rows UnmarshalRaw mrs ctx1 = Inr ctx'"
    and "tss ctx' = tss ctx1 @ map2 row_series mrs ms'"
    using Cons.IH [OF rest, of ctx1] by blast
  then show ?case
    using step by (simp add: ms ctx1_def)
qed

text \<open>A row that does not decode stops the whole call, whatever the pointer holds.\<close>

lemma push_rows_undecoded:
  "\<not> decodes UnmarshalRaw mr \<Longrightarrow> mr \<in> set mrs \<Longrightarrow> \<exists>e. push_rows UnmarshalRaw mrs ctx = Inl e"
proof (induction mrs arbitrary: ctx)
  case Nil
  then show ?case by simp
next
  case (Cons r mrs)
  show ?case
  proof (cases "UnmarshalRaw (MetricNameRaw r)")
    case (Inl err)
    then show ?thesis by simp
  next
    case (Inr m)
    with Cons.prems have "mr \<in> set mrs"
      by (auto simp: decodes_def)
    from Cons.IH [OF Cons.prems(1) this] Inr show ?thesis
      by (simp add: Let_def split: prod.splits)
  qed
qed

lemma zero_loop_eq: "zero_loop i xs = take i xs @ replicate (length xs - i) 0"
proof (induction i xs rule: zero_loop.induct)
  case (1 i xs)
  show ?case
  proof (cases "i < length xs")
    case True
    have "zero_loop i xs = zero_loop (i + 1) (xs[i := 0])"
      using True by (subst zero_loop.simps) simp
    also have "\<dots> = take (i + 1) (xs[i := 0]) @ replicate (length xs - (i + 1)) 0"
      using "1.IH" [OF True] by simp
    also have "take (i + 1) (xs[i := 0]) = take i xs @ [0]"
      using True by (simp add: take_Suc_conv_app_nth)
    also have "(take i xs @ [0]) @ replicate (length xs - (i + 1)) 0
               = take i xs @ replicate (length xs - i) 0"
      using True by (simp add: replicate_Suc [symmetric] Suc_diff_Suc del: replicate_Suc)
    finally show ?thesis .
  next
    case False
    then show ?thesis by (subst zero_loop.simps) simp
  qed
qed

lemma zero_loop_0: "zero_loop 0 xs = replicate (length xs) 0"
  by (simp add: zero_loop_eq)

lemma length_Resize: "length (ResizeNoCopyMayOverallocate stale b n) = n"
  by (simp add: ResizeNoCopyMayOverallocate_def)

lemma Reset_eq: "Reset ctx = streamAggrCtx0"
  by (simp add: Reset_def streamAggrCtx0_def)

lemma push_panics:
  "\<not> decodes UnmarshalRaw mr \<Longrightarrow> mr \<in> set mrs \<Longrightarrow>
   \<exists>e. push UnmarshalRaw matches stale w ctx mrs matchIdxs = Inl e"
  using push_rows_undecoded [of UnmarshalRaw mr mrs ctx] by (auto simp: push_def)

lemma example_rows_decode:
  "map (\<lambda>mr. example_UnmarshalRaw (MetricNameRaw mr)) example_rows
     = map Inr [\<lparr>MetricGroup = ''cpu'', Tags = [\<lparr>Key = ''host'', Value_tag = ''a''\<rparr>]\<rparr>,
                \<lparr>MetricGroup = ''cpu'', Tags = [\<lparr>Key = ''host'', Value_tag = ''b''\<rparr>]\<rparr>]"
  by (simp add: example_rows_def example_UnmarshalRaw_def)

subsection \<open>Pushing rows\<close>

text \<open>
  C1, as the specification states it, does not hold: \<open>push\<close> has no branch for the nil
  pointer. With aggregation disabled it returns the two zero entries, and it has made
  its call of \<open>Aggregators.Push\<close>, on the nil pointer.
\<close>

theorem push_disabled_counterexample:
  "push example_UnmarshalRaw example_matches 7 world0 streamAggrCtx0 example_rows [1, 1, 1]
     = Inr ([0, 0], streamAggrCtx0,
            world0\<lparr>trace := [Aggregators_Push_call None
              [\<lparr>Labels = [\<lparr>Name = ''__name__'', Value = ''cpu''\<rparr>, \<lparr>Name = ''host'', Value = ''a''\<rparr>],
                Samples = [\<lparr>Value_sample = 0x3FF0000000000000, Timestamp_sample = 1000\<rparr>]\<rparr>,
               \<lparr>Labels = [\<lparr>Name = ''__name__'', Value = ''cpu''\<rparr>, \<lparr>Name = ''host'', Value = ''b''\<rparr>],
                Samples = [\<lparr>Value_sample = 0x4000000000000000, Timestamp_sample = 2000\<rparr>]\<rparr>]
              [0, 0]]\<rparr>)"
  by (simp add: push_def example_rows_def example_UnmarshalRaw_def streamAggrCtx0_def world0_def
      Let_def zero_loop_0 ResizeNoCopyMayOverallocate_def Aggregators_Push_def Reset_def emit_def)

text \<open>
  C1, amended. While no aggregators are active (the pointer is nil), \<open>push\<close> on a batch of
  N rows that decode returns a bitmap of N zero entries, whatever the bitmap passed in
  held. It zeroes the bitmap itself and then makes its one call of \<open>Aggregators.Push\<close>,
  on the nil pointer, with the N series and the zeroed bitmap; nothing else is called
  and nothing else changes. (A row that does not decode panics before the pointer is
  read, see \<open>push_panics\<close>.)
\<close>

theorem push_disabled:
  assumes "sasGlobal w = None"
    and "map (\<lambda>mr. UnmarshalRaw (MetricNameRaw mr)) mrs = map Inr ms"
  shows "push UnmarshalRaw matches stale w ctx mrs matchIdxs
           = Inr (replicate (length mrs) 0, streamAggrCtx0,
                  emit (Aggregators_Push_call None (map2 row_series mrs ms) (replicate (length mrs) 0)) w)"
proof -
  have len: "length ms = length mrs"
    using assms(2) by (metis length_map)
  obtain ctx' where c: "push_rows UnmarshalRaw mrs ctx = Inr ctx'"
    and t: "tss ctx' = tss ctx @ map2 row_series mrs ms"
    using push_rows_decoded [OF assms(2)] by blast
  show ?thesis
    using assms(1)
    by (simp add: push_def c t len Let_def zero_loop_0 length_Resize Aggregators_Push_def Reset_eq)
qed

theorem push_disabled_witness:
  "sasGlobal world0 = None
   \<and> map (\<lambda>mr. example_UnmarshalRaw (MetricNameRaw mr)) example_rows
       = map Inr [\<lparr>MetricGroup = ''cpu'', Tags = [\<lparr>Key = ''host'', Value_tag = ''a''\<rparr>]\<rparr>,
                  \<lparr>MetricGroup = ''cpu'', Tags = [\<lparr>Key = ''host'', Value_tag = ''b''\<rparr>]\<rparr>]
   \<and> push example_UnmarshalRaw example_matches 7 world0 streamAggrCtx0 example_rows [1, 1, 1]
       = Inr ([0, 0], streamAggrCtx0,
              emit (Aggregators_Push_call None
                (map2 row_series example_rows
                   [\<lparr>MetricGroup = ''cpu'', Tags = [\<lparr>Key = ''host'', Value_tag = ''a''\<rparr>]\<rparr>,
                    \<lparr>MetricGroup = ''cpu'', Tags = [\<lparr>Key = ''host'', Value_tag = ''b''\<rparr>]\<rparr>])
                [0, 0]) world0)"
proof -
  have h1: "sasGlobal world0 = None"
    by (simp add: world0_def)
  have l: "replicate (length example_rows) (0 :: byte) = [0, 0]"
    by (simp add: example_rows_def)
  have r: "push example_UnmarshalRaw example_matches 7 world0 streamAggrCtx0 example_rows [1, 1, 1]
       = Inr ([0, 0], streamAggrCtx0,
              emit (Aggregators_Push_call None
                (map2 row_series example_rows
                   [\<lparr>MetricGroup = ''cpu'', Tags = [\<lparr>Key = ''host'', Value_tag = ''a''\<rparr>]\<rparr>,
                    \<lparr>MetricGroup = ''cpu'', Tags = [\<lparr>Key = ''host'', Value_tag = ''b''\<rparr>]\<rparr>])
                [0, 0]) world0)"
    using push_disabled [OF h1 example_rows_decode, of example_matches 7 streamAggrCtx0 "[1, 1, 1]"]
    by (simp only: l)
  show ?thesis
    by (intro conjI h1 example_rows_decode r)
qed

text \<open>
  C6. While aggregators \<open>a\<close> are active, \<open>push\<close> on a batch of N rows with the decoded names
  \<open>ms\<close> hands exactly one call to \<open>a\<close>: the N series \<open>row_series\<close> of the rows, in the
  order of the rows (each with the label \<open>__name__\<close> first, then the tags in order, and
  one sample with the row's timestamp and value), together with a bitmap of N zero
  entries; and it returns a bitmap of N entries.
\<close>

theorem push_enabled:
  assumes "sasGlobal w = Some a"
    and "map (\<lambda>mr. UnmarshalRaw (MetricNameRaw mr)) mrs = map Inr ms"
  shows "push UnmarshalRaw matches stale w ctx mrs matchIdxs
           = Inr (map (\<lambda>ts. if matches a ts then 1 else 0) (map2 row_series mrs ms),
                  streamAggrCtx0,
                  emit (Aggregators_Push_call (Some a) (map2 row_series mrs ms)
                          (replicate (length mrs) 0)) w)
         \<and> length (map2 row_series mrs ms) = length mrs
         \<and> length (map (\<lambda>ts. if matches a ts then 1 else 0 :: byte) (map2 row_series mrs ms)) = length mrs"
proof -
  have len: "length ms = length mrs"
    using assms(2) by (metis length_map)
  obtain ctx' where c: "push_rows UnmarshalRaw mrs ctx = Inr ctx'"
    and t: "tss ctx' = tss ctx @ map2 row_series mrs ms"
    using push_rows_decoded [OF assms(2)] by blast
  have m: "map2 (\<lambda>ts b. if matches a ts then 1 else b) xs (replicate (length xs) (0::byte))
            = map (\<lambda>ts. if matches a ts then 1 else 0) xs" for xs :: "TimeSeries list"
    by (induction xs) simp_all
  show ?thesis
    using assms(1) m [of "map2 row_series mrs ms"]
    by (simp add: push_def c t len Let_def zero_loop_0 length_Resize Aggregators_Push_def Reset_eq)
qed

theorem push_enabled_witness:
  "sasGlobal example_world = Some example_active
   \<and> push example_UnmarshalRaw example_matches 7 example_world streamAggrCtx0 example_rows []
       = Inr ([1, 0], streamAggrCtx0,
              emit (Aggregators_Push_call (Some example_active)
                [\<lparr>Labels = [\<lparr>Name = ''__name__'', Value = ''cpu''\<rparr>, \<lparr>Name = ''host'', Value = ''a''\<rparr>],
                  Samples = [\<lparr>Value_sample = 0x3FF0000000000000, Timestamp_sample = 1000\<rparr>]\<rparr>,
                 \<lparr>Labels = [\<lparr>Name = ''__name__'', Value = ''cpu''\<rparr>, \<lparr>Name = ''host'', Value = ''b''\<rparr>],
                  Samples = [\<lparr>Value_sample = 0x4000000000000000, Timestamp_sample = 2000\<rparr>]\<rparr>]
                [0, 0]) example_world)"
proof -
  have h1: "sasGlobal example_world = Some example_active"
    by (simp add: example_world_def)
  show ?thesis
    using h1 push_enabled [OF h1 example_rows_decode, of example_matches 7 streamAggrCtx0 "[]"]
    by (simp add: example_rows_def row_series_def tag_label_def example_matches_def)
qed

subsection \<open>Loading and reloading\<close>

text \<open>
  C2, as the specification states it, does not hold: with no config file,
  \<open>InitStreamAggr\<close> returns right after creating the stop channel. The pointer is nil,
  but no reloader is started and the wait group stays at zero.
\<close>

theorem InitStreamAggr_no_config_counterexample:
  "\<not> isl (InitStreamAggr no_config_flags (Inr ''rules'') 0 world0)
   \<and> sasGlobal (projr (InitStreamAggr no_config_flags (Inr ''rules'') 0 world0)) = None
   \<and> \<not> reloaderRunning (projr (InitStreamAggr no_config_flags (Inr ''rules'') 0 world0))
   \<and> saCfgReloaderWG (projr (InitStreamAggr no_config_flags (Inr ''rules'') 0 world0)) = 0
   \<and> Reloader_started \<notin> set (trace (projr (InitStreamAggr no_config_flags (Inr ''rules'') 0 world0)))"
  by (simp add: InitStreamAggr_def world0_def no_config_flags_def)

text \<open>
  C2, amended. With no config file, \<open>InitStreamAggr\<close> called in a state without
  aggregators and without reloader only creates the stop channel: the pointer stays nil
  and no reloader is started. \<open>MustStopStreamAggr\<close> then still runs to its end: it closes
  the channel, the wait returns at once since nothing was added to the wait group, and
  it swaps nil for nil and calls \<open>MustStop\<close> on nil, where there is nothing to stop.
\<close>

theorem InitStreamAggr_no_config:
  assumes "streamAggrConfig fl = []"
    and "sasGlobal w = None" and "\<not> reloaderRunning w" and "saCfgReloaderWG w = 0"
  shows "InitStreamAggr fl parsed now w = Inr (w\<lparr>saCfgReloaderStopCh := OpenChan\<rparr>)
     \<and> sasGlobal (w\<lparr>saCfgReloaderStopCh := OpenChan\<rparr>) = None
     \<and> \<not> reloaderRunning (w\<lparr>saCfgReloaderStopCh := OpenChan\<rparr>)
     \<and> MustStopStreamAggr fl (w\<lparr>saCfgReloaderStopCh := OpenChan\<rparr>)
         = Inr (w\<lparr>saCfgReloaderStopCh := ClosedChan,
                  trace := trace w @ [Close_saCfgReloaderStopCh, Swap_sasGlobal None,
                                      Aggregators_MustStop_call None]\<rparr>)"
  using assms
  by (simp add: InitStreamAggr_def MustStopStreamAggr_def emit_def MustStop_def)

theorem InitStreamAggr_no_config_witness:
  "streamAggrConfig no_config_flags = []
   \<and> InitStreamAggr no_config_flags (Inl ''no file'') 1700000000 world0
     = Inr (world0\<lparr>saCfgReloaderStopCh := OpenChan\<rparr>)
   \<and> MustStopStreamAggr no_config_flags (world0\<lparr>saCfgReloaderStopCh := OpenChan\<rparr>)
     = Inr (world0\<lparr>saCfgReloaderStopCh := ClosedChan,
                   trace := [Close_saCfgReloaderStopCh, Swap_sasGlobal None,
                             Aggregators_MustStop_call None]\<rparr>)"
  using InitStreamAggr_no_config [of no_config_flags world0 "Inl ''no file''" 1700000000]
  by (simp add: world0_def no_config_flags_def)

text \<open>
  C3. A reload that parses rules equal to those of the active aggregators \<open>old\<close> leaves the
  pointer at \<open>old\<close> itself (not at the candidate, which is a new instance), stops the
  candidate, adds one to the reload counter, and sets the success gauge to 1 and the
  success timestamp to the clock.
\<close>

theorem reload_same_config:
  assumes "sasGlobal w = Some old" and "configData old = rules"
  shows "let cand = \<lparr>addr = allocs w, configData = rules\<rparr>;
             w' = reloadStreamAggrConfig fl (Inr rules) now w
         in sasGlobal w' = Some old
          \<and> (addr old < allocs w \<longrightarrow> sasGlobal w' \<noteq> Some cand)
          \<and> trace w' = trace w @
              [Infof (''reloading -streamAggr.config='' @ streamAggrConfig fl),
               LoadFromFile_ok cand,
               Infof (''nothing changed in -streamAggr.config='' @ streamAggrConfig fl),
               Aggregators_MustStop_call (Some cand)]
          \<and> saCfgReloads w' = saCfgReloads w + 1
          \<and> saCfgReloadErr w' = saCfgReloadErr w
          \<and> saCfgSuccess w' = 1
          \<and> saCfgTimestamp w' = now"
proof -
  have "old \<noteq> \<lparr>addr = allocs w, configData = rules\<rparr>" if "addr old < allocs w"
  proof
    assume "old = \<lparr>addr = allocs w, configData = rules\<rparr>"
    then have "addr old = allocs w"
      by (cases old) simp
    with that show False by simp
  qed
  with assms show ?thesis
    by (simp add: reloadStreamAggrConfig_def LoadFromFile_def Equal_def MustStop_def emit_def Let_def)
qed

theorem reload_same_config_witness:
  "sasGlobal example_world = Some example_active \<and> configData example_active = ''rules''
   \<and> addr example_active < allocs example_world
   \<and> sasGlobal (reloadStreamAggrConfig example_flags (Inr ''rules'') 1700000060 example_world)
       = Some example_active
   \<and> sasGlobal (reloadStreamAggrConfig example_flags (Inr ''rules'') 1700000060 example_world)
       \<noteq> Some \<lparr>addr = 1, configData = ''rules''\<rparr>
   \<and> trace (reloadStreamAggrConfig example_flags (Inr ''rules'') 1700000060 example_world)
       = trace example_world @
           [Infof ''reloading -streamAggr.config=aggr.yml'',
            LoadFromFile_ok \<lparr>addr = 1, configData = ''rules''\<rparr>,
            Infof ''nothing changed in -streamAggr.config=aggr.yml'',
            Aggregators_MustStop_call (Some \<lparr>addr = 1, configData = ''rules''\<rparr>)]
   \<and> saCfgReloads (reloadStreamAggrConfig example_flags (Inr ''rules'') 1700000060 example_world) = 1
   \<and> saCfgSuccess (reloadStreamAggrConfig example_flags (Inr ''rules'') 1700000060 example_world) = 1
   \<and> saCfgTimestamp (reloadStreamAggrConfig example_flags (Inr ''rules'') 1700000060 example_world)
       = 1700000060"
proof -
  have h1: "sasGlobal example_world = Some example_active"
    by (simp add: example_world_def)
  have h2: "configData example_active = ''rules''"
    by (simp add: example_active_def)
  have h3: "addr example_active < allocs example_world"
    by (simp add: example_world_def example_active_def world0_def)
  have a: "allocs example_world = 1" and r: "saCfgReloads example_world = 0"
    by (simp_all add: example_world_def world0_def)
  show ?thesis
    using h1 h2 h3 reload_same_config [OF h1 h2, of example_flags 1700000060]
    by (simp add: Let_def a r example_flags_def example_active_def)
qed

text \<open>
  C4. A reload whose parse fails changes nothing but the reload counter (plus one), the
  error counter (plus one), the success gauge (0) and the log: the pointer, the success
  timestamp and the instances are as before, no aggregators are stopped or swapped, and
  the function returns (its result is a state, it has no failure).
\<close>

theorem reload_parse_error:
  "reloadStreamAggrConfig fl (Inl err) now w =
     w\<lparr>saCfgReloads := saCfgReloads w + 1,
       saCfgReloadErr := saCfgReloadErr w + 1,
       saCfgSuccess := 0,
       trace := trace w @
         [Infof (''reloading -streamAggr.config='' @ streamAggrConfig fl),
          LoadFromFile_err err,
          Errorf (''cannot reload -streamAggr.config='' @ streamAggrConfig fl
                  @ '': use the previously loaded config; error: '' @ err)]\<rparr>"
  by (simp add: reloadStreamAggrConfig_def LoadFromFile_def emit_def Let_def)

subsection \<open>The reload, step by step\<close>

text \<open>The steps, run to the end, are the function.\<close>

lemma reload_steps_refine:
  "(reload_step fl parsed now ^^ 10) (R_start, w) = (R_done, reloadStreamAggrConfig fl parsed now w)"
  by (cases parsed)
    (simp_all add: eval_nat_numeral reloadStreamAggrConfig_def LoadFromFile_def Let_def
      split: prod.splits sum.splits)

text \<open>Two steps of a pusher are the tail of \<open>push\<close>.\<close>

lemma push_steps_refine:
  assumes "map (\<lambda>mr. UnmarshalRaw (MetricNameRaw mr)) mrs = map Inr ms"
    and "push_step matches (map2 row_series mrs ms)
           (push_step matches (map2 row_series mrs ms) (P_start, w)) = (pc, w')"
  shows "\<exists>matchIdxs. pc = P_done matchIdxs
           \<and> push UnmarshalRaw matches stale w ctx mrs given = Inr (matchIdxs, streamAggrCtx0, w')"
proof -
  have len: "length ms = length mrs"
    using assms(1) by (metis length_map)
  obtain ctx' where c: "push_rows UnmarshalRaw mrs ctx = Inr ctx'"
    and t: "tss ctx' = tss ctx @ map2 row_series mrs ms"
    using push_rows_decoded [OF assms(1)] by blast
  show ?thesis
    using assms(2)
    by (auto simp: push_def c t len Let_def zero_loop_0 length_Resize Reset_eq split: prod.splits)
qed

lemma quiet_append:
  assumes "quiet old before w" and "trace w' = trace w @ [e]"
    and "e \<noteq> Aggregators_MustStop_call (Some old)"
  shows "quiet old before w'"
proof -
  from assms(1) have "length (take (length before) (trace w)) = length before"
    by (simp only: quiet_def)
  then have le: "length before \<le> length (trace w)"
    by simp
  with assms show ?thesis
    by (simp add: quiet_def)
qed

lemma quiet_emit:
  "quiet old before w \<Longrightarrow> e \<noteq> Aggregators_MustStop_call (Some old) \<Longrightarrow> quiet old before (emit e w)"
  by (rule quiet_append [of old before w _ e]) (simp_all add: emit_def)

lemma reload_inv_emit:
  "reload_inv old cand before pc w \<Longrightarrow> e \<noteq> Aggregators_MustStop_call (Some old)
   \<Longrightarrow> reload_inv old cand before pc (emit e w)"
  by (cases pc) (simp_all add: quiet_emit, simp_all add: emit_def)

lemma reload_inv_ptr:
  "reload_inv old cand before pc w \<Longrightarrow> sasGlobal w = Some old \<or> sasGlobal w = Some cand"
  by (cases pc) simp_all

lemma reload_step_inv:
  assumes "reload_inv old cand before pc w" and "configData cand \<noteq> configData old"
  shows "reload_inv old cand before (fst (reload_step fl (Inr (configData cand)) now (pc, w)))
           (snd (reload_step fl (Inr (configData cand)) now (pc, w)))"
proof (cases pc)
  case R_start
  with assms show ?thesis by (simp add: quiet_emit) (simp add: emit_def)
next
  case R_inc
  with assms show ?thesis by (simp add: quiet_def)
next
  case R_load_file
  from assms R_load_file have q: "quiet old before w" and a: "allocs w = addr cand"
    and o: "sasGlobal w = Some old"
    by simp_all
  have "quiet old before
          (emit (LoadFromFile_ok \<lparr>addr = addr cand, configData = configData cand\<rparr>)
             (w\<lparr>allocs := allocs w + 1\<rparr>))"
    by (rule quiet_append [OF q, of _ "LoadFromFile_ok \<lparr>addr = addr cand, configData = configData cand\<rparr>"])
      (simp_all add: emit_def)
  with R_load_file a o show ?thesis
    by (simp add: LoadFromFile_def Let_def) (simp add: emit_def)
next
  case (R_equal sasNew sas)
  with assms show ?thesis by (simp add: Equal_def)
next
  case (R_swap sasNew)
  from assms R_swap have q: "quiet old before w" and c: "sasNew = cand"
    and o: "sasGlobal w = Some old"
    by simp_all
  have "quiet old before (emit (Swap_sasGlobal (Some cand)) (w\<lparr>sasGlobal := Some cand\<rparr>))"
    by (rule quiet_append [OF q, of _ "Swap_sasGlobal (Some cand)"]) (simp_all add: emit_def)
  with R_swap c o show ?thesis
    by simp (simp add: emit_def)
qed (use assms in \<open>simp_all add: MustStop_def emit_def\<close>)

lemma reload_step_ptr:
  assumes "reload_inv old cand before pc w" and "old \<noteq> cand" and "sasGlobal w = Some cand"
  shows "sasGlobal (snd (reload_step fl parsed now (pc, w))) = Some cand"
  using assms by (cases pc) (simp_all add: MustStop_def emit_def)

lemma push_step_world:
  "snd (push_step matches batch (pc, w)) = w
   \<or> (\<exists>sas. snd (push_step matches batch (pc, w))
              = emit (Aggregators_Push_call sas batch (replicate (length batch) 0)) w)"
  by (cases pc) (auto simp: Aggregators_Push_def Let_def split: option.splits)

lemma push_step_reload_inv:
  assumes "reload_inv old cand before rpc w"
  shows "reload_inv old cand before rpc (snd (push_step matches batch (pc, w)))"
  using push_step_world [of matches batch pc w] assms by (auto intro: reload_inv_emit)

lemma push_step_ptr: "sasGlobal (snd (push_step matches batch (pc, w))) = sasGlobal w"
  using push_step_world [of matches batch pc w] by (auto simp: emit_def)

lemma push_step_push_inv:
  assumes "push_inv old cand pc" and "sasGlobal w = Some old \<or> sasGlobal w = Some cand"
  shows "push_inv old cand (fst (push_step matches batch (pc, w)))"
  using assms by (cases pc) (auto simp: Aggregators_Push_def Let_def split: option.splits)

lemma gstep_inv:
  assumes "ginv old cand before g" and "configData cand \<noteq> configData old"
  shows "ginv old cand before (gstep fl (Inr (configData cand)) now matches t g)"
proof (cases t)
  case 0
  with assms reload_step_inv [OF _ assms(2), of before "reloader_pc g" "shared g" fl now]
  show ?thesis
    by (auto simp: ginv_def split: prod.splits)
next
  case (Suc i)
  show ?thesis
  proof (cases "i < length (pushers g)")
    case False
    with assms Suc show ?thesis by simp
  next
    case True
    obtain batch pc where p: "pushers g ! i = (batch, pc)"
      by (cases "pushers g ! i") auto
    from assms have r: "reload_inv old cand before (reloader_pc g) (shared g)"
      and l: "list_all (\<lambda>p. push_inv old cand (snd p)) (pushers g)"
      by (simp_all add: ginv_def)
    from l True p have pi: "push_inv old cand pc"
      by (auto simp: list_all_length)
    have n: "push_inv old cand (fst (push_step matches batch (pc, shared g)))"
      using push_step_push_inv [OF pi reload_inv_ptr [OF r]] .
    have l': "list_all (\<lambda>p. push_inv old cand (snd p))
                ((pushers g)[i := (batch, fst (push_step matches batch (pc, shared g)))])"
      using l n True by (simp add: list_all_length nth_list_update)
    show ?thesis
      using Suc True p l' push_step_reload_inv [OF r, of matches batch pc]
      by (auto simp: ginv_def split: prod.splits)
  qed
qed

lemma gstep_ptr:
  assumes "ginv old cand before g" and "old \<noteq> cand" and "sasGlobal (shared g) = Some cand"
  shows "sasGlobal (shared (gstep fl parsed now matches t g)) = Some cand"
proof (cases t)
  case 0
  from assms have r: "reload_inv old cand before (reloader_pc g) (shared g)"
    by (simp add: ginv_def)
  from reload_step_ptr [OF r assms(2,3), of fl parsed now] 0 show ?thesis
    by (auto split: prod.splits)
next
  case (Suc i)
  show ?thesis
  proof (cases "i < length (pushers g)")
    case False
    with assms Suc show ?thesis by simp
  next
    case True
    obtain batch pc where p: "pushers g ! i = (batch, pc)"
      by (cases "pushers g ! i") auto
    from Suc True p assms(3) push_step_ptr [of matches batch pc "shared g"] show ?thesis
      by (auto split: prod.splits)
  qed
qed

lemma run_inv:
  assumes "ginv old cand before g" and "configData cand \<noteq> configData old"
  shows "list_all (ginv old cand before) (run fl (Inr (configData cand)) now matches sched g)"
  using assms(1)
proof (induction sched arbitrary: g)
  case Nil
  then show ?case by simp
next
  case (Cons t sched)
  from Cons.IH [OF gstep_inv [OF Cons.prems assms(2)]] Cons.prems show ?case by simp
qed

lemma run_shape:
  assumes "ginv old cand before g" and "configData cand \<noteq> configData old"
  shows "\<exists>k m. map (\<lambda>s. sasGlobal (shared s)) (run fl (Inr (configData cand)) now matches sched g)
                 = replicate k (Some old) @ replicate m (Some cand)
               \<and> (sasGlobal (shared g) = Some cand \<longrightarrow> k = 0)"
  using assms(1)
proof (induction sched arbitrary: g)
  case Nil
  from Nil have "sasGlobal (shared g) = Some old \<or> sasGlobal (shared g) = Some cand"
    using reload_inv_ptr [of old cand before "reloader_pc g" "shared g"] by (simp add: ginv_def)
  then show ?case
  proof
    assume o: "sasGlobal (shared g) = Some old"
    have "old \<noteq> cand" using assms(2) by auto
    with o show ?thesis
      by (intro exI [of _ "Suc 0"] exI [of _ 0]) simp
  next
    assume c: "sasGlobal (shared g) = Some cand"
    then show ?thesis
      by (intro exI [of _ 0] exI [of _ "Suc 0"]) simp
  qed
next
  case (Cons t sched)
  have neq: "old \<noteq> cand" using assms(2) by auto
  let ?g = "gstep fl (Inr (configData cand)) now matches t g"
  from Cons.IH [OF gstep_inv [OF Cons.prems assms(2)]]
  obtain k m where km: "map (\<lambda>s. sasGlobal (shared s)) (run fl (Inr (configData cand)) now matches sched ?g)
                 = replicate k (Some old) @ replicate m (Some cand)"
    and z: "sasGlobal (shared ?g) = Some cand \<longrightarrow> k = 0"
    by blast
  from Cons.prems have "sasGlobal (shared g) = Some old \<or> sasGlobal (shared g) = Some cand"
    using reload_inv_ptr [of old cand before "reloader_pc g" "shared g"] by (simp add: ginv_def)
  then show ?case
  proof
    assume o: "sasGlobal (shared g) = Some old"
    with km neq show ?thesis
      by (intro exI [of _ "Suc k"] exI [of _ m]) simp
  next
    assume c: "sasGlobal (shared g) = Some cand"
    from gstep_ptr [OF Cons.prems neq c] z have "k = 0" by simp
    with km c show ?thesis
      by (intro exI [of _ 0] exI [of _ "Suc m"]) simp
  qed
qed

lemma pushes_bound_append:
  assumes "pushes_bound old cand before w" and "trace w' = trace w @ [e]"
    and "case e of Aggregators_Push_call sas batch matchIdxs \<Rightarrow> sas = Some old \<or> sas = Some cand
         | _ \<Rightarrow> True"
  shows "pushes_bound old cand before w'"
proof -
  from assms(1) have "length (take (length before) (trace w)) = length before"
    by (simp only: pushes_bound_def)
  then have le: "length before \<le> length (trace w)"
    by simp
  with assms show ?thesis
    by (simp add: pushes_bound_def)
qed

lemma pushes_bound_same:
  "pushes_bound old cand before w \<Longrightarrow> trace w' = trace w \<Longrightarrow> pushes_bound old cand before w'"
  by (simp add: pushes_bound_def)

lemma reload_step_pushes_bound:
  assumes "pushes_bound old cand before w"
  shows "pushes_bound old cand before (snd (reload_step fl parsed now (pc, w)))"
proof (cases pc)
  case R_load_file
  show ?thesis
  proof (cases parsed)
    case (Inl err)
    with R_load_file show ?thesis
      by (simp add: LoadFromFile_def)
        (rule pushes_bound_append [OF assms, of _ "LoadFromFile_err err"], simp_all add: emit_def)
  next
    case (Inr rules)
    with R_load_file show ?thesis
      by (simp add: LoadFromFile_def Let_def)
        (rule pushes_bound_append [OF assms, of _ "LoadFromFile_ok \<lparr>addr = allocs w, configData = rules\<rparr>"],
          simp_all add: emit_def)
  qed
next
  case R_start
  then show ?thesis
    by simp (rule pushes_bound_append [OF assms, of _ "Infof (''reloading -streamAggr.config='' @ streamAggrConfig fl)"],
      simp_all add: emit_def)
next
  case (R_err_log err)
  then show ?thesis
    by simp (rule pushes_bound_append [OF assms, of _ "Errorf (''cannot reload -streamAggr.config='' @ streamAggrConfig fl
                     @ '': use the previously loaded config; error: '' @ err)"],
      simp_all add: emit_def)
next
  case (R_swap sasNew)
  then show ?thesis
    by simp (rule pushes_bound_append [OF assms, of _ "Swap_sasGlobal (Some sasNew)"], simp_all add: emit_def)
next
  case (R_stop_old sasOld)
  then show ?thesis
    by (simp add: MustStop_def)
      (rule pushes_bound_append [OF assms, of _ "Aggregators_MustStop_call sasOld"], simp_all add: emit_def)
next
  case (R_stop_new sasNew)
  then show ?thesis
    by (simp add: MustStop_def)
      (rule pushes_bound_append [OF assms, of _ "Aggregators_MustStop_call (Some sasNew)"], simp_all add: emit_def)
next
  case R_log_ok
  then show ?thesis
    by simp (rule pushes_bound_append [OF assms, of _ "Infof (''successfully reloaded stream aggregation config at -streamAggr.config=''
                            @ streamAggrConfig fl)"], simp_all add: emit_def)
next
  case (R_log_same sasNew)
  then show ?thesis
    by simp (rule pushes_bound_append [OF assms, of _ "Infof (''nothing changed in -streamAggr.config='' @ streamAggrConfig fl)"],
      simp_all add: emit_def)
qed (use assms in \<open>auto intro: pushes_bound_same\<close>)

lemma push_step_pushes_bound:
  assumes "pushes_bound old cand before w" and "push_inv old cand pc"
  shows "pushes_bound old cand before (snd (push_step matches batch (pc, w)))"
proof (cases pc)
  case (P_loaded sas)
  with assms(2) have s: "sas = Some old \<or> sas = Some cand" by simp
  have "pushes_bound old cand before
          (emit (Aggregators_Push_call sas batch (replicate (length batch) 0)) w)"
    by (rule pushes_bound_append [OF assms(1), of _ "Aggregators_Push_call sas batch (replicate (length batch) 0)"])
      (use s in \<open>simp_all add: emit_def\<close>)
  with P_loaded show ?thesis
    by (auto simp: Aggregators_Push_def Let_def split: option.splits)
qed (use assms in simp_all)

lemma gstep_pushes_bound:
  assumes "ginv old cand before g" and "pushes_bound old cand before (shared g)"
  shows "pushes_bound old cand before (shared (gstep fl parsed now matches t g))"
proof (cases t)
  case 0
  with reload_step_pushes_bound [OF assms(2), of fl parsed now "reloader_pc g"] show ?thesis
    by (auto split: prod.splits)
next
  case (Suc i)
  show ?thesis
  proof (cases "i < length (pushers g)")
    case False
    with assms Suc show ?thesis by simp
  next
    case True
    obtain batch pc where p: "pushers g ! i = (batch, pc)"
      by (cases "pushers g ! i") auto
    from assms(1) True p have "push_inv old cand pc"
      by (auto simp: ginv_def list_all_length)
    from push_step_pushes_bound [OF assms(2) this, of matches batch] Suc True p show ?thesis
      by (auto split: prod.splits)
  qed
qed

lemma run_pushes_bound:
  assumes "ginv old cand before g" and "pushes_bound old cand before (shared g)"
    and "configData cand \<noteq> configData old"
  shows "list_all (\<lambda>s. pushes_bound old cand before (shared s))
           (run fl (Inr (configData cand)) now matches sched g)"
  using assms(1,2)
proof (induction sched arbitrary: g)
  case Nil
  then show ?case by simp
next
  case (Cons t sched)
  from Cons.IH [OF gstep_inv [OF Cons.prems(1) assms(3)] gstep_pushes_bound [OF Cons.prems]] Cons.prems
  show ?case by simp
qed

lemma reload_inv_stopped:
  "reload_inv old cand before pc w
   \<Longrightarrow> Aggregators_MustStop_call (Some old) \<in> set (drop (length before) (trace w))
   \<Longrightarrow> sasGlobal w = Some cand"
  by (cases pc) (simp_all add: quiet_def)

lemma reload_new_config_big_step:
  assumes "sasGlobal w = Some old" and "configData old \<noteq> rules"
  shows "reloadStreamAggrConfig fl (Inr rules) now w
         = w\<lparr>sasGlobal := Some \<lparr>addr = allocs w, configData = rules\<rparr>,
              saCfgReloads := saCfgReloads w + 1, saCfgSuccess := 1, saCfgTimestamp := now,
              allocs := allocs w + 1,
              trace := trace w @
                [Infof (''reloading -streamAggr.config='' @ streamAggrConfig fl),
                 LoadFromFile_ok \<lparr>addr = allocs w, configData = rules\<rparr>,
                 Swap_sasGlobal (Some \<lparr>addr = allocs w, configData = rules\<rparr>),
                 Aggregators_MustStop_call (Some old),
                 Infof (''successfully reloaded stream aggregation config at -streamAggr.config=''
                        @ streamAggrConfig fl)]\<rparr>"
  using assms
  by (auto simp: reloadStreamAggrConfig_def LoadFromFile_def Equal_def MustStop_def emit_def Let_def)

lemma example_run:
  "map (\<lambda>s. sasGlobal (shared s))
       (run example_flags (Inr ''rules2'') 1700000060 example_matches example_schedule example_g)
     = replicate 8 (Some example_active) @ replicate 7 (Some \<lparr>addr = 1, configData = ''rules2''\<rparr>)
   \<and> reloader_pc (last (run example_flags (Inr ''rules2'') 1700000060 example_matches
                          example_schedule example_g)) = R_done
   \<and> map snd (pushers (last (run example_flags (Inr ''rules2'') 1700000060 example_matches
                                example_schedule example_g))) = [P_done [0], P_done [0]]
   \<and> drop 3 (trace (shared (last (run example_flags (Inr ''rules2'') 1700000060 example_matches
                                     example_schedule example_g))))
       = [Infof ''reloading -streamAggr.config=aggr.yml'',
          LoadFromFile_ok \<lparr>addr = 1, configData = ''rules2''\<rparr>,
          Aggregators_Push_call (Some example_active) [example_series ''1''] [0],
          Swap_sasGlobal (Some \<lparr>addr = 1, configData = ''rules2''\<rparr>),
          Aggregators_MustStop_call (Some example_active),
          Aggregators_Push_call (Some \<lparr>addr = 1, configData = ''rules2''\<rparr>) [example_series ''2''] [0],
          Infof ''successfully reloaded stream aggregation config at -streamAggr.config=aggr.yml'']"
  by code_simp

text \<open>
  C5. A reload that parses rules different from those of the active aggregators \<open>old\<close>,
  run among any number of concurrent pushes under any schedule: the pointer holds \<open>old\<close>
  and then the candidate and nothing else, so it changes once, by the swap, and holds
  the candidate when the reload is done; when the reloader is about to call \<open>MustStop\<close>
  on \<open>old\<close>, and at every state after that call, the pointer already holds the
  candidate; every load of a pusher returned \<open>old\<close> or the candidate, and every call of
  \<open>Push\<close> was made on one of the two. Run without interruption, the ten steps are
  \<open>reloadStreamAggrConfig\<close>, whose trace has the swap before the stop.
\<close>

theorem reload_new_config_interleaved:
  assumes "reloader_pc g = R_start" and "sasGlobal (shared g) = Some old"
    and "configData old \<noteq> rules" and "list_all (\<lambda>p. snd p = P_start) (pushers g)"
  shows "let cand = \<lparr>addr = allocs (shared g), configData = rules\<rparr>;
             states = run fl (Inr rules) now matches sched g;
             w' = reloadStreamAggrConfig fl (Inr rules) now (shared g)
         in (\<exists>k m. map (\<lambda>s. sasGlobal (shared s)) states
                      = replicate (Suc k) (Some old) @ replicate m (Some cand))
          \<and> (\<forall>s\<in>set states. reloader_pc s = R_done \<longrightarrow> sasGlobal (shared s) = Some cand)
          \<and> (\<forall>s\<in>set states. \<forall>sasOld. reloader_pc s = R_stop_old sasOld
                \<longrightarrow> sasOld = Some old \<and> sasGlobal (shared s) = Some cand)
          \<and> (\<forall>s\<in>set states.
                Aggregators_MustStop_call (Some old)
                  \<in> set (drop (length (trace (shared g))) (trace (shared s)))
                \<longrightarrow> sasGlobal (shared s) = Some cand)
          \<and> (\<forall>s\<in>set states. \<forall>batch sas. (batch, P_loaded sas) \<in> set (pushers s)
                \<longrightarrow> sas = Some old \<or> sas = Some cand)
          \<and> (\<forall>s\<in>set states. pushes_bound old cand (trace (shared g)) (shared s))
          \<and> (reload_step fl (Inr rules) now ^^ 10) (R_start, shared g) = (R_done, w')
          \<and> sasGlobal w' = Some cand
          \<and> trace w' = trace (shared g) @
                [Infof (''reloading -streamAggr.config='' @ streamAggrConfig fl),
                 LoadFromFile_ok cand,
                 Swap_sasGlobal (Some cand),
                 Aggregators_MustStop_call (Some old),
                 Infof (''successfully reloaded stream aggregation config at -streamAggr.config=''
                        @ streamAggrConfig fl)]"
proof -
  define cand where "cand = \<lparr>addr = allocs (shared g), configData = rules\<rparr>"
  define states where "states = run fl (Inr rules) now matches sched g"
  have rules: "rules = configData cand" and neq: "configData cand \<noteq> configData old"
    using assms(3) by (auto simp: cand_def)
  have pi: "list_all (\<lambda>p. push_inv old cand (snd p)) (pushers g)"
    using assms(4) by (auto simp: list_all_iff)
  have inv0: "ginv old cand (trace (shared g)) g"
    using assms(1,2) pi by (simp add: ginv_def quiet_def cand_def)
  have pb0: "pushes_bound old cand (trace (shared g)) (shared g)"
    by (simp add: pushes_bound_def)
  have invs: "list_all (ginv old cand (trace (shared g))) states"
    unfolding states_def rules by (rule run_inv [OF inv0 neq])
  have pbs: "list_all (\<lambda>s. pushes_bound old cand (trace (shared g)) (shared s)) states"
    unfolding states_def rules by (rule run_pushes_bound [OF inv0 pb0 neq])
  obtain k m where km: "map (\<lambda>s. sasGlobal (shared s)) states
                          = replicate k (Some old) @ replicate m (Some cand)"
    using run_shape [OF inv0 neq, of fl now matches sched] unfolding states_def rules by blast
  have "states \<noteq> []"
    unfolding states_def by (cases sched) simp_all
  then obtain s0 rest where st: "states = s0 # rest"
    by (cases states) auto
  have "s0 = g"
    using st unfolding states_def by (cases sched) simp_all
  with st km assms(2)
  have "Some old # map (\<lambda>s. sasGlobal (shared s)) rest
          = replicate k (Some old) @ replicate m (Some cand)"
    by simp
  moreover have "old \<noteq> cand"
    using neq by auto
  ultimately have "k \<noteq> 0"
    by (cases k; cases m) auto
  then obtain k' where k: "k = Suc k'"
    by (cases k) auto
  have 1: "\<exists>k m. map (\<lambda>s. sasGlobal (shared s)) states
                      = replicate (Suc k) (Some old) @ replicate m (Some cand)"
    using km k by blast
  have 2: "\<forall>s\<in>set states. reloader_pc s = R_done \<longrightarrow> sasGlobal (shared s) = Some cand"
    using invs by (auto simp: list_all_iff ginv_def)
  have 3: "\<forall>s\<in>set states. \<forall>sasOld. reloader_pc s = R_stop_old sasOld
                \<longrightarrow> sasOld = Some old \<and> sasGlobal (shared s) = Some cand"
    using invs by (auto simp: list_all_iff ginv_def)
  have 4: "\<forall>s\<in>set states.
                Aggregators_MustStop_call (Some old)
                  \<in> set (drop (length (trace (shared g))) (trace (shared s)))
                \<longrightarrow> sasGlobal (shared s) = Some cand"
    using invs reload_inv_stopped by (auto simp: list_all_iff ginv_def)
  have 5: "\<forall>s\<in>set states. \<forall>batch sas. (batch, P_loaded sas) \<in> set (pushers s)
                \<longrightarrow> sas = Some old \<or> sas = Some cand"
  proof (intro ballI allI impI)
    fix s batch sas
    assume "s \<in> set states" and in_p: "(batch, P_loaded sas) \<in> set (pushers s)"
    with invs have "list_all (\<lambda>p. push_inv old cand (snd p)) (pushers s)"
      by (auto simp: list_all_iff ginv_def)
    with in_p have "push_inv old cand (snd (batch, P_loaded sas))"
      by (auto simp: list_all_iff)
    then show "sas = Some old \<or> sas = Some cand" by simp
  qed
  have 6: "\<forall>s\<in>set states. pushes_bound old cand (trace (shared g)) (shared s)"
    using pbs by (simp add: list_all_iff)
  note big = reload_new_config_big_step [OF assms(2,3), of fl now]
  have 7: "(reload_step fl (Inr rules) now ^^ 10) (R_start, shared g)
           = (R_done, reloadStreamAggrConfig fl (Inr rules) now (shared g))"
    by (rule reload_steps_refine)
  have 8: "sasGlobal (reloadStreamAggrConfig fl (Inr rules) now (shared g)) = Some cand"
    by (simp add: big cand_def)
  have 9: "trace (reloadStreamAggrConfig fl (Inr rules) now (shared g)) = trace (shared g) @
                [Infof (''reloading -streamAggr.config='' @ streamAggrConfig fl),
                 LoadFromFile_ok cand,
                 Swap_sasGlobal (Some cand),
                 Aggregators_MustStop_call (Some old),
                 Infof (''successfully reloaded stream aggregation config at -streamAggr.config=''
                        @ streamAggrConfig fl)]"
    by (simp add: big cand_def)
  show ?thesis
    unfolding Let_def cand_def [symmetric] states_def [symmetric]
    using 1 2 3 4 5 6 7 8 9 by (intro conjI)
qed

theorem reload_new_config_interleaved_witness:
  "reloader_pc example_g = R_start
   \<and> sasGlobal (shared example_g) = Some example_active
   \<and> configData example_active \<noteq> ''rules2''
   \<and> list_all (\<lambda>p. snd p = P_start) (pushers example_g)
   \<and> map (\<lambda>s. sasGlobal (shared s))
       (run example_flags (Inr ''rules2'') 1700000060 example_matches example_schedule example_g)
     = replicate 8 (Some example_active) @ replicate 7 (Some \<lparr>addr = 1, configData = ''rules2''\<rparr>)
   \<and> reloader_pc (last (run example_flags (Inr ''rules2'') 1700000060 example_matches
                          example_schedule example_g)) = R_done
   \<and> sasGlobal (shared (last (run example_flags (Inr ''rules2'') 1700000060 example_matches
                          example_schedule example_g))) = Some \<lparr>addr = 1, configData = ''rules2''\<rparr>
   \<and> map snd (pushers (last (run example_flags (Inr ''rules2'') 1700000060 example_matches
                                example_schedule example_g))) = [P_done [0], P_done [0]]
   \<and> drop 3 (trace (shared (last (run example_flags (Inr ''rules2'') 1700000060 example_matches
                                     example_schedule example_g))))
       = [Infof ''reloading -streamAggr.config=aggr.yml'',
          LoadFromFile_ok \<lparr>addr = 1, configData = ''rules2''\<rparr>,
          Aggregators_Push_call (Some example_active) [example_series ''1''] [0],
          Swap_sasGlobal (Some \<lparr>addr = 1, configData = ''rules2''\<rparr>),
          Aggregators_MustStop_call (Some example_active),
          Aggregators_Push_call (Some \<lparr>addr = 1, configData = ''rules2''\<rparr>) [example_series ''2''] [0],
          Infof ''successfully reloaded stream aggregation config at -streamAggr.config=aggr.yml'']"
proof -
  have h1: "reloader_pc example_g = R_start"
    by (simp add: example_g_def)
  have h2: "sasGlobal (shared example_g) = Some example_active"
    by (simp add: example_g_def example_world_def)
  have h3: "configData example_active \<noteq> ''rules2''"
    by (simp add: example_active_def)
  have h4: "list_all (\<lambda>p. snd p = P_start) (pushers example_g)"
    by (simp add: example_g_def)
  have a: "allocs (shared example_g) = 1"
    by (simp add: example_g_def example_world_def world0_def)
  let ?states = "run example_flags (Inr ''rules2'') 1700000060 example_matches example_schedule example_g"
  have "?states \<noteq> []"
    by (simp add: example_schedule_def)
  then have l: "last ?states \<in> set ?states"
    by (rule last_in_set)
  from reload_new_config_interleaved [OF h1 h2 h3 h4, of example_flags 1700000060 example_matches example_schedule]
  have "\<forall>s\<in>set ?states. reloader_pc s = R_done
          \<longrightarrow> sasGlobal (shared s) = Some \<lparr>addr = 1, configData = ''rules2''\<rparr>"
    by (simp only: Let_def a) blast
  with l example_run have "sasGlobal (shared (last ?states)) = Some \<lparr>addr = 1, configData = ''rules2''\<rparr>"
    by blast
  with h1 h2 h3 h4 example_run show ?thesis
    by (intro conjI) blast+
qed

subsection \<open>The loops of pushAggregateSeries\<close>

lemma add_labels_eq:
  "add_labels ls ctx = ctx\<lparr>Labels_ctx := Labels_ctx ctx @ map row_label ls\<rparr>"
  by (induction ls arbitrary: ctx) (simp_all add: AddLabel_def row_label_def Let_def)

lemma build_rows_Cons_ok:
  assumes "marshal (map row_label (Labels ts)) = Inr raw" and "Samples ts = s # ss"
  shows "build_rows marshal cur (ts # rest) ctx evs =
         build_rows marshal cur rest
           (ctx\<lparr>Labels_ctx := map row_label (Labels ts),
                mrs_ctx := mrs_ctx ctx @ [\<lparr>MetricNameRaw = raw, Timestamp_mr = cur, Value_mr = Value_sample s\<rparr>]\<rparr>)
           (evs @ [attempt cur ts])"
  using assms by (simp add: add_labels_eq WriteDataPoint_def attempt_def Let_def)

lemma build_rows_Cons_fail:
  assumes "marshal (map row_label (Labels ts)) = Inl e" and "Samples ts = s # ss"
  shows "build_rows marshal cur (ts # rest) ctx evs =
         Inr (False, ctx\<lparr>Labels_ctx := map row_label (Labels ts)\<rparr>,
              evs @ [attempt cur ts, Errorf (''cannot store aggregate series: '' @ e)])"
  using assms by (simp add: add_labels_eq WriteDataPoint_def attempt_def Let_def)

lemma build_rows_Cons_panic:
  assumes "Samples ts = []"
  shows "build_rows marshal cur (ts # rest) ctx evs = Inl index_panic"
  using assms by (simp add: index_panic_def Let_def)

lemma build_rows_prefix:
  assumes "\<forall>t\<in>set pre. builds marshal t \<and> Samples t \<noteq> []"
  shows "\<exists>ctx' rows. build_rows marshal cur (pre @ rest) ctx evs
                 = build_rows marshal cur rest ctx' (evs @ map (attempt cur) pre)
              \<and> mrs_ctx ctx' = mrs_ctx ctx @ rows
              \<and> list_all2 (row_of marshal cur) rows pre
              \<and> skipStreamAggr ctx' = skipStreamAggr ctx"
  using assms
proof (induction pre arbitrary: ctx evs)
  case Nil
  show ?case by (rule exI [of _ ctx], rule exI [of _ "[]"]) simp
next
  case (Cons t pre)
  from Cons.prems have "builds marshal t" and "Samples t \<noteq> []" by simp_all
  then obtain raw s ss where raw: "marshal (map row_label (Labels t)) = Inr raw"
    and s: "Samples t = s # ss"
    by (cases "marshal (map row_label (Labels t))"; cases "Samples t") (simp_all add: builds_def)
  define r where "r = \<lparr>MetricNameRaw = raw, Timestamp_mr = cur, Value_mr = Value_sample s\<rparr>"
  define ctx1 where "ctx1 = ctx\<lparr>Labels_ctx := map row_label (Labels t), mrs_ctx := mrs_ctx ctx @ [r]\<rparr>"
  have step: "build_rows marshal cur ((t # pre) @ rest) ctx evs
              = build_rows marshal cur (pre @ rest) ctx1 (evs @ [attempt cur t])"
    using build_rows_Cons_ok [of marshal t raw s ss cur "pre @ rest" ctx evs] raw s
    by (simp add: ctx1_def r_def)
  from Cons.prems have "\<forall>t\<in>set pre. builds marshal t \<and> Samples t \<noteq> []" by simp
  from Cons.IH [OF this, of ctx1 "evs @ [attempt cur t]"]
  obtain ctx' rows where 1: "build_rows marshal cur (pre @ rest) ctx1 (evs @ [attempt cur t])
                 = build_rows marshal cur rest ctx' ((evs @ [attempt cur t]) @ map (attempt cur) pre)"
    and 2: "mrs_ctx ctx' = mrs_ctx ctx1 @ rows"
    and 3: "list_all2 (row_of marshal cur) rows pre"
    and 4: "skipStreamAggr ctx' = skipStreamAggr ctx1"
    by blast
  have rr: "row_of marshal cur r t"
    by (simp add: row_of_def raw s r_def)
  show ?case
  proof (rule exI [of _ ctx'], rule exI [of _ "r # rows"], intro conjI)
    show "build_rows marshal cur ((t # pre) @ rest) ctx evs
          = build_rows marshal cur rest ctx' (evs @ map (attempt cur) (t # pre))"
      using step 1 by simp
    show "mrs_ctx ctx' = mrs_ctx ctx @ r # rows"
      using 2 by (simp add: ctx1_def)
    show "list_all2 (row_of marshal cur) (r # rows) (t # pre)"
      using rr 3 by simp
    show "skipStreamAggr ctx' = skipStreamAggr ctx"
      using 4 by (simp add: ctx1_def)
  qed
qed

text \<open>What any run of the loop leaves behind.\<close>

lemma build_rows_result:
  assumes "build_rows marshal cur series ctx evs = Inr (b, ctx', evs')"
  shows "\<exists>rows new. mrs_ctx ctx' = mrs_ctx ctx @ rows
           \<and> list_all2 (row_of marshal cur) rows (take (length rows) series)
           \<and> length rows \<le> length series
           \<and> skipStreamAggr ctx' = skipStreamAggr ctx
           \<and> evs' = evs @ new
           \<and> (\<forall>rs. AddRows_call rs \<notin> set new)
           \<and> (\<forall>a ts m. Aggregators_Push_call a ts m \<notin> set new)
           \<and> (b \<longrightarrow> length rows = length series \<and> (\<forall>t\<in>set series. builds marshal t))"
  using assms
proof (induction series arbitrary: ctx evs)
  case Nil
  then show ?case by simp
next
  case (Cons t rest)
  show ?case
  proof (cases "Samples t")
    case Nil
    with Cons.prems show ?thesis
      by (simp add: build_rows_Cons_panic)
  next
    case s: (Cons s ss)
    show ?thesis
    proof (cases "marshal (map row_label (Labels t))")
      case (Inl e)
      from Cons.prems have "ctx' = ctx\<lparr>Labels_ctx := map row_label (Labels t)\<rparr>"
        and "evs' = evs @ [attempt cur t, Errorf (''cannot store aggregate series: '' @ e)]"
        and "\<not> b"
        using build_rows_Cons_fail [of marshal t e s ss cur rest ctx evs] Inl s by simp_all
      then show ?thesis
        by (intro exI [of _ "[]"] exI [of _ "[attempt cur t, Errorf (''cannot store aggregate series: '' @ e)]"])
          (simp add: attempt_def)
    next
      case (Inr raw)
      define r where "r = \<lparr>MetricNameRaw = raw, Timestamp_mr = cur, Value_mr = Value_sample s\<rparr>"
      define ctx1 where "ctx1 = ctx\<lparr>Labels_ctx := map row_label (Labels t), mrs_ctx := mrs_ctx ctx @ [r]\<rparr>"
      have "build_rows marshal cur rest ctx1 (evs @ [attempt cur t]) = Inr (b, ctx', evs')"
        using Cons.prems build_rows_Cons_ok [of marshal t raw s ss cur rest ctx evs] Inr s
        by (simp add: ctx1_def r_def)
      from Cons.IH [OF this]
      obtain rows new where 1: "mrs_ctx ctx' = mrs_ctx ctx1 @ rows"
        and 2: "list_all2 (row_of marshal cur) rows (take (length rows) rest)"
        and 3: "length rows \<le> length rest"
        and 4: "skipStreamAggr ctx' = skipStreamAggr ctx1"
        and 5: "evs' = (evs @ [attempt cur t]) @ new"
        and 6: "\<forall>rs. AddRows_call rs \<notin> set new"
        and 7: "\<forall>a ts m. Aggregators_Push_call a ts m \<notin> set new"
        and 8: "b \<longrightarrow> length rows = length rest \<and> (\<forall>t\<in>set rest. builds marshal t)"
        by blast
      have rr: "row_of marshal cur r t"
        by (simp add: row_of_def Inr s r_def)
      have bt: "builds marshal t"
        by (simp add: builds_def Inr)
      show ?thesis
      proof (intro exI [of _ "r # rows"] exI [of _ "attempt cur t # new"] conjI)
        show "mrs_ctx ctx' = mrs_ctx ctx @ r # rows"
          using 1 by (simp add: ctx1_def)
        show "list_all2 (row_of marshal cur) (r # rows) (take (length (r # rows)) (t # rest))"
          using rr 2 by simp
        show "length (r # rows) \<le> length (t # rest)"
          using 3 by simp
        show "skipStreamAggr ctx' = skipStreamAggr ctx"
          using 4 by (simp add: ctx1_def)
        show "evs' = evs @ attempt cur t # new"
          using 5 by simp
        show "\<forall>rs. AddRows_call rs \<notin> set (attempt cur t # new)"
          using 6 by (simp add: attempt_def)
        show "\<forall>a ts m. Aggregators_Push_call a ts m \<notin> set (attempt cur t # new)"
          using 7 by (simp add: attempt_def)
        show "b \<longrightarrow> length (r # rows) = length (t # rest) \<and> (\<forall>t\<in>set (t # rest). builds marshal t)"
          using 8 bt by simp
      qed
    qed
  qed
qed

text \<open>The loop panics exactly when it reaches a series without samples.\<close>

lemma build_rows_panic:
  assumes "build_rows marshal cur series ctx evs = Inl e"
  shows "e = index_panic \<and> (\<exists>pre ts post. series = pre @ ts # post
           \<and> (\<forall>t\<in>set pre. builds marshal t \<and> Samples t \<noteq> []) \<and> Samples ts = [])"
  using assms
proof (induction series arbitrary: ctx evs)
  case Nil
  then show ?case by simp
next
  case (Cons t rest)
  show ?case
  proof (cases "Samples t")
    case Nil
    with Cons.prems have "e = index_panic"
      by (auto simp: index_panic_def)
    moreover have "t # rest = [] @ t # rest \<and> (\<forall>t\<in>set []. builds marshal t \<and> Samples t \<noteq> []) \<and> Samples t = []"
      using Nil by simp
    ultimately show ?thesis by blast
  next
    case s: (Cons s ss)
    show ?thesis
    proof (cases "marshal (map row_label (Labels t))")
      case (Inl e')
      with Cons.prems s show ?thesis
        using build_rows_Cons_fail [of marshal t e' s ss cur rest ctx evs] by simp
    next
      case (Inr raw)
      from Cons.prems obtain ctx1 evs1 where "build_rows marshal cur rest ctx1 evs1 = Inl e"
        using build_rows_Cons_ok [of marshal t raw s ss cur rest ctx evs] Inr s by simp
      from Cons.IH [OF this] obtain pre ts post where e: "e = index_panic"
        and "rest = pre @ ts # post"
        and "\<forall>t\<in>set pre. builds marshal t \<and> Samples t \<noteq> []" and "Samples ts = []"
        by blast
      then have "t # rest = (t # pre) @ ts # post
          \<and> (\<forall>t\<in>set (t # pre). builds marshal t \<and> Samples t \<noteq> []) \<and> Samples ts = []"
        using s Inr by (simp add: builds_def)
      with e show ?thesis by blast
    qed
  qed
qed

lemma build_rows_first_sample_only:
  "build_rows marshal cur (map first_sample_only series) ctx evs = build_rows marshal cur series ctx evs"
proof (induction series arbitrary: ctx evs)
  case Nil
  show ?case by simp
next
  case (Cons t rest)
  show ?case
    using Cons.IH
    by (cases "Samples t") (simp_all add: first_sample_only_def Let_def split: prod.splits option.splits)
qed

text \<open>Seconds to milliseconds in \<open>int64\<close>: exact as long as the product fits.\<close>

lemma unat_1000: "unat (1000 :: 64 word) = 1000"
  by simp

lemma ms_no_overflow:
  assumes "unat (now :: 64 word) * 1000 < 2 ^ 63"
  shows "unat now * unat (1000 :: 64 word) < 2 ^ LENGTH(64)"
proof -
  have "(2::nat) ^ 63 < 2 ^ 64" by simp
  with assms have "unat now * 1000 < 2 ^ 64" by (rule less_trans)
  then show ?thesis by (simp only: unat_1000 len_bit0 len_num1) simp
qed

lemma unat_ms:
  assumes "unat (now :: 64 word) * 1000 < 2 ^ 63"
  shows "unat (now * 1000) = unat now * 1000"
proof -
  have "unat (now * 1000) = unat now * unat (1000 :: 64 word)"
    using ms_no_overflow [OF assms] by (rule unat_mult_lem [THEN iffD1])
  then show ?thesis by (simp only: unat_1000)
qed

lemma uint_ms:
  assumes "unat (now :: 64 word) * 1000 < 2 ^ 63"
  shows "uint (now * 1000) = int (unat now) * 1000 \<and> uint (now * 1000) < 2 ^ 63"
proof -
  have ui: "uint (now * 1000) = int (unat now * 1000)"
    by (simp only: uint_nat unat_ms [OF assms])
  have "int (unat now * 1000) < int (2 ^ 63)"
    using assms by (simp only: of_nat_less_iff)
  then have "int (unat now * 1000) < 2 ^ 63"
    by (simp only: of_nat_power of_nat_numeral)
  with ui show ?thesis by (simp only: of_nat_mult of_nat_numeral)
qed

lemma sint_ms:
  assumes "unat (now :: 64 word) * 1000 < 2 ^ 63"
  shows "sint (now * 1000) = int (unat now) * 1000"
proof -
  have ui: "uint (now * 1000) = int (unat now) * 1000" and lt: "uint (now * 1000) < 2 ^ 63"
    using uint_ms [OF assms] by blast+
  have ge: "- (2 ^ 63) \<le> uint (now * 1000)"
  proof -
    have "(0::int) \<le> uint (now * 1000)" by (rule uint_ge_0)
    moreover have "- (2 ^ 63) \<le> (0::int)" by simp
    ultimately show ?thesis by (rule order_trans [rotated])
  qed
  have "sint (now * 1000) = signed_take_bit (LENGTH(64) - Suc 0) (uint (now * 1000))"
    by (rule sint_uint)
  also have "LENGTH(64) - Suc 0 = 63"
    by simp
  also have "signed_take_bit 63 (uint (now * 1000)) = uint (now * 1000)"
    using ge lt by (rule signed_take_bit_int_eq_self)
  finally show ?thesis by (simp only: ui)
qed

lemma pushAggregateSeries_eq:
  "pushAggregateSeries marshal AddRows now series =
     (case build_rows marshal (now * 1000) series (ctx_start (length series)) [] of
        Inl e \<Rightarrow> Inl e
      | Inr (False, ctx, evs) \<Rightarrow> Inr (ctx, evs)
      | Inr (True, ctx, evs) \<Rightarrow>
          (case AddRows (mrs_ctx ctx) of
             Some e \<Rightarrow> Inr (ctx, evs @ [AddRows_call (mrs_ctx ctx), Errorf (''cannot flush aggregate series: '' @ e)])
           | None \<Rightarrow> Inr (ctx, evs @ [AddRows_call (mrs_ctx ctx)])))"
  by (simp add: pushAggregateSeries_def ctx_start_def Let_def split: sum.splits prod.splits bool.splits option.splits)

lemma ctx_start_simps: "mrs_ctx (ctx_start n) = []" "skipStreamAggr (ctx_start n)"
  by (simp_all add: ctx_start_def InsertCtx_Reset_def)

lemma pushAggregateSeries_panic_iff:
  "pushAggregateSeries marshal AddRows now series = Inl e
   \<longleftrightarrow> build_rows marshal (now * 1000) series (ctx_start (length series)) [] = Inl e"
  by (simp add: pushAggregateSeries_eq split: sum.splits prod.splits bool.splits option.splits)

lemma pushAggregateSeries_returns:
  assumes "\<forall>t\<in>set series. Samples t \<noteq> []"
  shows "\<exists>ctx evs. pushAggregateSeries marshal AddRows now series = Inr (ctx, evs)"
proof (cases "pushAggregateSeries marshal AddRows now series")
  case (Inl e)
  then have "build_rows marshal (now * 1000) series (ctx_start (length series)) [] = Inl e"
    by (simp only: pushAggregateSeries_panic_iff)
  from build_rows_panic [OF this] assms show ?thesis by auto
next
  case (Inr res)
  then show ?thesis by (cases res) auto
qed

lemma pushAggregateSeries_all_built:
  assumes "\<forall>t\<in>set series. builds marshal t \<and> Samples t \<noteq> []"
  shows "\<exists>ctx. pushAggregateSeries marshal AddRows now series
           = Inr (ctx, map (attempt (now * 1000)) series @ AddRows_call (mrs_ctx ctx)
                       # (case AddRows (mrs_ctx ctx) of None \<Rightarrow> []
                          | Some e \<Rightarrow> [Errorf (''cannot flush aggregate series: '' @ e)]))
         \<and> list_all2 (row_of marshal (now * 1000)) (mrs_ctx ctx) series"
proof -
  obtain ctx1 rows1 where
    1: "build_rows marshal (now * 1000) (series @ []) (ctx_start (length series)) []
        = build_rows marshal (now * 1000) [] ctx1 ([] @ map (attempt (now * 1000)) series)"
    and 2: "mrs_ctx ctx1 = mrs_ctx (ctx_start (length series)) @ rows1"
    and 3: "list_all2 (row_of marshal (now * 1000)) rows1 series"
    using build_rows_prefix [OF assms, of "now * 1000" "[]" "ctx_start (length series)" "[]"] by blast
  from 1 have b: "build_rows marshal (now * 1000) series (ctx_start (length series)) []
                  = Inr (True, ctx1, map (attempt (now * 1000)) series)"
    by simp
  from 2 3 have r: "list_all2 (row_of marshal (now * 1000)) (mrs_ctx ctx1) series"
    by (simp add: ctx_start_simps)
  show ?thesis
    by (rule exI [of _ ctx1]) (simp add: pushAggregateSeries_eq b r split: option.splits)
qed

text \<open>The examples: two series that are built, and the clock in milliseconds.\<close>

lemma example_builds:
  "builds example_marshal (example_series ''1'')" "builds example_marshal (example_series ''2'')"
  "Samples (example_series le) \<noteq> []"
  "example_marshal (map row_label (Labels (example_series ''bad''))) = Inl ''cannot marshal''"
  by (simp_all add: builds_def example_marshal_def example_series_def row_label_def)

lemma ms_example: "(1700000000 :: 64 word) * 1000 = 1700000000000"
  by simp

lemma example_returns:
  "\<exists>ctx. pushAggregateSeries example_marshal example_AddRows 1700000000
              [example_series ''1'', example_series ''2'']
            = Inr (ctx, [attempt 1700000000000 (example_series ''1''),
                         attempt 1700000000000 (example_series ''2''),
                         AddRows_call (mrs_ctx ctx)])"
  using pushAggregateSeries_all_built
      [of "[example_series ''1'', example_series ''2'']" example_marshal example_AddRows 1700000000]
  by (auto simp: example_builds ms_example example_AddRows_def)

subsection \<open>Writing the aggregated series back\<close>

text \<open>
  C7. If the rows of the series \<open>pre\<close> are built and the row of the next series \<open>ts\<close>
  fails to build, \<open>pushAggregateSeries\<close> makes the calls of \<open>WriteDataPoint\<close> for \<open>pre\<close>
  and \<open>ts\<close> and logs one error, and that is all: the series after \<open>ts\<close> are not
  attempted and \<open>AddRows\<close> is not called, although the context holds the rows built for
  \<open>pre\<close>. And whenever \<open>AddRows\<close> is called, the row of every series of the call was
  built, and the rows passed are those rows.
\<close>

theorem pushAggregateSeries_fail_fast:
  "(series = pre @ ts # post \<and> (\<forall>t\<in>set pre. builds marshal t \<and> Samples t \<noteq> [])
      \<and> marshal (map row_label (Labels ts)) = Inl e \<and> Samples ts \<noteq> []
    \<longrightarrow> (\<exists>ctx. pushAggregateSeries marshal AddRows now series
               = Inr (ctx, map (attempt (now * 1000)) pre
                           @ [attempt (now * 1000) ts, Errorf (''cannot store aggregate series: '' @ e)])
            \<and> length (mrs_ctx ctx) = length pre))
   \<and> (pushAggregateSeries marshal AddRows now series = Inr (ctx', evs) \<and> AddRows_call rows \<in> set evs
    \<longrightarrow> (\<forall>t\<in>set series. builds marshal t) \<and> rows = mrs_ctx ctx' \<and> length rows = length series)"
proof (rule conjI; rule impI)
  assume a: "series = pre @ ts # post \<and> (\<forall>t\<in>set pre. builds marshal t \<and> Samples t \<noteq> [])
      \<and> marshal (map row_label (Labels ts)) = Inl e \<and> Samples ts \<noteq> []"
  then obtain s ss where s: "Samples ts = s # ss"
    by (cases "Samples ts") auto
  from a have pre: "\<forall>t\<in>set pre. builds marshal t \<and> Samples t \<noteq> []" by simp
  obtain ctx1 rows1 where
    1: "build_rows marshal (now * 1000) (pre @ ts # post) (ctx_start (length series)) []
        = build_rows marshal (now * 1000) (ts # post) ctx1 ([] @ map (attempt (now * 1000)) pre)"
    and 2: "mrs_ctx ctx1 = mrs_ctx (ctx_start (length series)) @ rows1"
    and 3: "list_all2 (row_of marshal (now * 1000)) rows1 pre"
    using build_rows_prefix [OF pre, of "now * 1000" "ts # post" "ctx_start (length series)" "[]"] by blast
  have 4: "build_rows marshal (now * 1000) (ts # post) ctx1 (map (attempt (now * 1000)) pre)
           = Inr (False, ctx1\<lparr>Labels_ctx := map row_label (Labels ts)\<rparr>,
                  map (attempt (now * 1000)) pre
                  @ [attempt (now * 1000) ts, Errorf (''cannot store aggregate series: '' @ e)])"
    using build_rows_Cons_fail [of marshal ts e s ss "now * 1000" post ctx1 "map (attempt (now * 1000)) pre"] a s
    by simp
  have len: "length (mrs_ctx ctx1) = length pre"
    using 2 3 by (simp add: ctx_start_simps list_all2_lengthD)
  show "\<exists>ctx. pushAggregateSeries marshal AddRows now series
               = Inr (ctx, map (attempt (now * 1000)) pre
                           @ [attempt (now * 1000) ts, Errorf (''cannot store aggregate series: '' @ e)])
            \<and> length (mrs_ctx ctx) = length pre"
    using a 1 4 len by (simp add: pushAggregateSeries_eq)
next
  assume b: "pushAggregateSeries marshal AddRows now series = Inr (ctx', evs) \<and> AddRows_call rows \<in> set evs"
  show "(\<forall>t\<in>set series. builds marshal t) \<and> rows = mrs_ctx ctx' \<and> length rows = length series"
  proof (cases "build_rows marshal (now * 1000) series (ctx_start (length series)) []")
    case (Inl e')
    with b show ?thesis by (simp add: pushAggregateSeries_eq)
  next
    case (Inr res)
    obtain fin ctx1 evs1 where res: "res = (fin, ctx1, evs1)"
      by (cases res) auto
    from build_rows_result [OF Inr [unfolded res]]
    obtain rows1 where 1: "mrs_ctx ctx1 = mrs_ctx (ctx_start (length series)) @ rows1"
      and 2: "\<forall>rs. AddRows_call rs \<notin> set evs1"
      and 3: "fin \<longrightarrow> length rows1 = length series \<and> (\<forall>t\<in>set series. builds marshal t)"
      by auto
    show ?thesis
    proof (cases fin)
      case False
      with b Inr res 2 show ?thesis
        by (simp add: pushAggregateSeries_eq)
    next
      case True
      with b Inr res 1 2 3 show ?thesis
        by (auto simp: pushAggregateSeries_eq ctx_start_simps split: option.splits)
    qed
  qed
qed

theorem pushAggregateSeries_fail_fast_witness:
  "list_all (\<lambda>t. builds example_marshal t \<and> Samples t \<noteq> []) [example_series ''1'', example_series ''2'']
   \<and> example_marshal (map row_label (Labels (example_series ''bad''))) = Inl ''cannot marshal''
   \<and> (\<exists>ctx. pushAggregateSeries example_marshal example_AddRows 1700000000
              [example_series ''1'', example_series ''2'', example_series ''bad'',
               example_series ''4'', example_series ''5'']
            = Inr (ctx, [attempt 1700000000000 (example_series ''1''),
                         attempt 1700000000000 (example_series ''2''),
                         attempt 1700000000000 (example_series ''bad''),
                         Errorf ''cannot store aggregate series: cannot marshal''])
          \<and> length (mrs_ctx ctx) = 2)
   \<and> (\<exists>ctx. pushAggregateSeries example_marshal example_AddRows 1700000000
              [example_series ''1'', example_series ''2'']
            = Inr (ctx, [attempt 1700000000000 (example_series ''1''),
                         attempt 1700000000000 (example_series ''2''),
                         AddRows_call (mrs_ctx ctx)])
          \<and> list_all (builds example_marshal) [example_series ''1'', example_series ''2'']
          \<and> length (mrs_ctx ctx) = 2)"
proof -
  have a: "\<exists>ctx. pushAggregateSeries example_marshal example_AddRows 1700000000
              [example_series ''1'', example_series ''2'', example_series ''bad'',
               example_series ''4'', example_series ''5'']
            = Inr (ctx, [attempt 1700000000000 (example_series ''1''),
                         attempt 1700000000000 (example_series ''2''),
                         attempt 1700000000000 (example_series ''bad''),
                         Errorf ''cannot store aggregate series: cannot marshal''])
          \<and> length (mrs_ctx ctx) = 2"
    using pushAggregateSeries_fail_fast
      [where series = "[example_series ''1'', example_series ''2'', example_series ''bad'',
               example_series ''4'', example_series ''5'']"
        and pre = "[example_series ''1'', example_series ''2'']"
        and ts = "example_series ''bad''"
        and post = "[example_series ''4'', example_series ''5'']"
        and marshal = example_marshal and e = "''cannot marshal''"
        and AddRows = example_AddRows and now = 1700000000, THEN conjunct1]
    by (simp add: example_builds ms_example numeral_2_eq_2)
  obtain ctx where c: "pushAggregateSeries example_marshal example_AddRows 1700000000
              [example_series ''1'', example_series ''2'']
            = Inr (ctx, [attempt 1700000000000 (example_series ''1''),
                         attempt 1700000000000 (example_series ''2''),
                         AddRows_call (mrs_ctx ctx)])"
    using pushAggregateSeries_all_built
      [of "[example_series ''1'', example_series ''2'']" example_marshal example_AddRows 1700000000]
    by (auto simp: example_builds ms_example example_AddRows_def)
  have b: "(\<forall>t\<in>set [example_series ''1'', example_series ''2'']. builds example_marshal t)
       \<and> mrs_ctx ctx = mrs_ctx ctx
       \<and> length (mrs_ctx ctx) = length [example_series ''1'', example_series ''2'']"
    using c pushAggregateSeries_fail_fast
      [where series = "[example_series ''1'', example_series ''2'']"
        and marshal = example_marshal and AddRows = example_AddRows and now = 1700000000
        and ctx' = ctx and rows = "mrs_ctx ctx"
        and evs = "[attempt 1700000000000 (example_series ''1''),
                         attempt 1700000000000 (example_series ''2''),
                         AddRows_call (mrs_ctx ctx)]", THEN conjunct2]
    by simp
  show ?thesis
    using a b c by (simp add: example_builds numeral_2_eq_2)
qed

text \<open>
  C8. Every row that \<open>pushAggregateSeries\<close> has built belongs to the series at the same
  position: its raw name is the encoding of the labels of the series with \<open>__name__\<close> turned
  into the empty name (the metric group) and the other labels kept, its value is the
  value of the first sample, and its timestamp is the clock in seconds times 1000, not
  the timestamp of the sample; as a number that is the clock in milliseconds as long as
  the product fits into \<open>int64\<close>.
\<close>

theorem pushAggregateSeries_rows:
  assumes "pushAggregateSeries marshal AddRows now series = Inr (ctx, evs)"
  shows "list_all2 (row_of marshal (now * 1000)) (mrs_ctx ctx) (take (length (mrs_ctx ctx)) series)
       \<and> (unat now * 1000 < 2 ^ 63
            \<longrightarrow> (\<forall>r\<in>set (mrs_ctx ctx). sint (Timestamp_mr r) = int (unat now) * 1000))"
proof (cases "build_rows marshal (now * 1000) series (ctx_start (length series)) []")
  case (Inl e)
  with assms show ?thesis by (simp add: pushAggregateSeries_eq)
next
  case (Inr res)
  obtain fin ctx1 evs1 where res: "res = (fin, ctx1, evs1)"
    by (cases res) auto
  from assms Inr res have c: "ctx = ctx1"
    by (cases fin) (auto simp: pushAggregateSeries_eq split: option.splits)
  from build_rows_result [OF Inr [unfolded res]]
  obtain rows1 where 1: "mrs_ctx ctx1 = mrs_ctx (ctx_start (length series)) @ rows1"
    and 2: "list_all2 (row_of marshal (now * 1000)) rows1 (take (length rows1) series)"
    by auto
  from 1 2 c have l: "list_all2 (row_of marshal (now * 1000)) (mrs_ctx ctx) (take (length (mrs_ctx ctx)) series)"
    by (simp add: ctx_start_simps)
  have t: "Timestamp_mr r = now * 1000" if "r \<in> set (mrs_ctx ctx)" for r
  proof -
    from that obtain i where i: "i < length (mrs_ctx ctx)" and r: "r = mrs_ctx ctx ! i"
      by (auto simp: in_set_conv_nth)
    from list_all2_nthD [OF l i] show ?thesis
      by (simp add: row_of_def r)
  qed
  show ?thesis
    using l t sint_ms by auto
qed

theorem pushAggregateSeries_rows_witness:
  "\<exists>ctx evs. pushAggregateSeries example_marshal example_AddRows 1700000000
                 [example_series ''1'', example_series ''2''] = Inr (ctx, evs)
      \<and> list_all2 (row_of example_marshal 1700000000000) (mrs_ctx ctx)
           [example_series ''1'', example_series ''2'']
      \<and> map MetricNameRaw (mrs_ctx ctx) = [''=cpu:1m_total;le=1;'', ''=cpu:1m_total;le=2;'']
      \<and> list_all (\<lambda>r. sint (Timestamp_mr r) = 1700000000000) (mrs_ctx ctx)"
proof -
  obtain ctx evs where c: "pushAggregateSeries example_marshal example_AddRows 1700000000
                 [example_series ''1'', example_series ''2''] = Inr (ctx, evs)"
    using example_returns by blast
  have n: "unat (1700000000 :: 64 word) * 1000 < 2 ^ 63"
    by simp
  from pushAggregateSeries_rows [OF c] n
  have t: "\<forall>r\<in>set (mrs_ctx ctx). sint (Timestamp_mr r) = int (unat (1700000000 :: 64 word)) * 1000"
    by blast
  obtain ctx2 where "pushAggregateSeries example_marshal example_AddRows 1700000000
              [example_series ''1'', example_series ''2'']
            = Inr (ctx2, map (attempt (1700000000 * 1000)) [example_series ''1'', example_series ''2'']
                       @ AddRows_call (mrs_ctx ctx2)
                       # (case example_AddRows (mrs_ctx ctx2) of None \<Rightarrow> []
                          | Some e \<Rightarrow> [Errorf (''cannot flush aggregate series: '' @ e)]))"
    and "list_all2 (row_of example_marshal (1700000000 * 1000)) (mrs_ctx ctx2)
           [example_series ''1'', example_series ''2'']"
    using pushAggregateSeries_all_built
      [of "[example_series ''1'', example_series ''2'']" example_marshal example_AddRows 1700000000]
    by (auto simp: example_builds)
  with c have l2: "list_all2 (row_of example_marshal 1700000000000) (mrs_ctx ctx)
           [example_series ''1'', example_series ''2'']"
    by (simp add: ms_example)
  from l2 have raw: "map MetricNameRaw (mrs_ctx ctx) = [''=cpu:1m_total;le=1;'', ''=cpu:1m_total;le=2;'']"
    by (auto simp: list_all2_Cons2 row_of_def example_marshal_def example_series_def row_label_def)
  from t have ts: "list_all (\<lambda>r. sint (Timestamp_mr r) = 1700000000000) (mrs_ctx ctx)"
    by (simp add: list_all_iff)
  show ?thesis
    using c l2 raw ts by auto
qed

text \<open>
  C10. \<open>pushAggregateSeries\<close> reads the first sample of a series only: cutting every
  series to its first sample changes nothing. If every series has a sample the function
  returns. It panics, with an index out of range, exactly when the loop reaches a series
  without samples, that is when all series before it were built.
\<close>

theorem pushAggregateSeries_first_sample:
  "pushAggregateSeries marshal AddRows now (map first_sample_only series)
     = pushAggregateSeries marshal AddRows now series
   \<and> ((\<forall>t\<in>set series. Samples t \<noteq> [])
        \<longrightarrow> (\<exists>ctx evs. pushAggregateSeries marshal AddRows now series = Inr (ctx, evs)))
   \<and> ((\<exists>pre ts post. series = pre @ ts # post
          \<and> (\<forall>t\<in>set pre. builds marshal t \<and> Samples t \<noteq> []) \<and> Samples ts = [])
        \<longleftrightarrow> pushAggregateSeries marshal AddRows now series = Inl index_panic)
   \<and> (\<forall>e. pushAggregateSeries marshal AddRows now series = Inl e \<longrightarrow> e = index_panic)"
proof (intro conjI)
  show "pushAggregateSeries marshal AddRows now (map first_sample_only series)
          = pushAggregateSeries marshal AddRows now series"
    by (simp add: pushAggregateSeries_eq build_rows_first_sample_only)
  show "(\<forall>t\<in>set series. Samples t \<noteq> [])
        \<longrightarrow> (\<exists>ctx evs. pushAggregateSeries marshal AddRows now series = Inr (ctx, evs))"
    using pushAggregateSeries_returns by blast
  show "(\<exists>pre ts post. series = pre @ ts # post
          \<and> (\<forall>t\<in>set pre. builds marshal t \<and> Samples t \<noteq> []) \<and> Samples ts = [])
        \<longleftrightarrow> pushAggregateSeries marshal AddRows now series = Inl index_panic"
  proof
    assume "\<exists>pre ts post. series = pre @ ts # post
          \<and> (\<forall>t\<in>set pre. builds marshal t \<and> Samples t \<noteq> []) \<and> Samples ts = []"
    then obtain pre ts post where t: "series = pre @ ts # post"
      and pre: "\<forall>t\<in>set pre. builds marshal t \<and> Samples t \<noteq> []" and s: "Samples ts = []"
      by blast
    obtain ctx1 where
      "build_rows marshal (now * 1000) (pre @ ts # post) (ctx_start (length series)) []
        = build_rows marshal (now * 1000) (ts # post) ctx1 ([] @ map (attempt (now * 1000)) pre)"
      using build_rows_prefix [OF pre, of "now * 1000" "ts # post" "ctx_start (length series)" "[]"] by blast
    then have "build_rows marshal (now * 1000) series (ctx_start (length series)) [] = Inl index_panic"
      using build_rows_Cons_panic [OF s] t by simp
    then show "pushAggregateSeries marshal AddRows now series = Inl index_panic"
      by (simp only: pushAggregateSeries_panic_iff)
  next
    assume "pushAggregateSeries marshal AddRows now series = Inl index_panic"
    then have "build_rows marshal (now * 1000) series (ctx_start (length series)) [] = Inl index_panic"
      by (simp only: pushAggregateSeries_panic_iff)
    from build_rows_panic [OF this]
    show "\<exists>pre ts post. series = pre @ ts # post
          \<and> (\<forall>t\<in>set pre. builds marshal t \<and> Samples t \<noteq> []) \<and> Samples ts = []"
      by blast
  qed
  show "\<forall>e. pushAggregateSeries marshal AddRows now series = Inl e \<longrightarrow> e = index_panic"
  proof (intro allI impI)
    fix e
    assume "pushAggregateSeries marshal AddRows now series = Inl e"
    then have "build_rows marshal (now * 1000) series (ctx_start (length series)) [] = Inl e"
      by (simp only: pushAggregateSeries_panic_iff)
    from build_rows_panic [OF this] show "e = index_panic" by blast
  qed
qed

theorem pushAggregateSeries_first_sample_witness:
  "(\<exists>ctx evs. pushAggregateSeries example_marshal example_AddRows 1700000000
                 [example_series ''1'', example_series ''2''] = Inr (ctx, evs))
   \<and> pushAggregateSeries example_marshal example_AddRows 1700000000
        [example_series ''1'', empty_series, example_series ''2''] = Inl index_panic
   \<and> pushAggregateSeries example_marshal example_AddRows 1700000000
        (map first_sample_only [example_series ''1'', example_series ''2''])
      = pushAggregateSeries example_marshal example_AddRows 1700000000
          [example_series ''1'', example_series ''2'']"
proof -
  note th = pushAggregateSeries_first_sample
    [where marshal = example_marshal and AddRows = example_AddRows and now = 1700000000]
  have 1: "\<exists>ctx evs. pushAggregateSeries example_marshal example_AddRows 1700000000
                 [example_series ''1'', example_series ''2''] = Inr (ctx, evs)"
    using th [where series = "[example_series ''1'', example_series ''2'']",
        THEN conjunct2, THEN conjunct1]
    by (simp add: example_builds)
  have ex: "\<exists>pre ts post. [example_series ''1'', empty_series, example_series ''2''] = pre @ ts # post
          \<and> (\<forall>t\<in>set pre. builds example_marshal t \<and> Samples t \<noteq> []) \<and> Samples ts = []"
    by (rule exI [of _ "[example_series ''1'']"], rule exI [of _ empty_series],
        rule exI [of _ "[example_series ''2'']"]) (simp add: example_builds empty_series_def)
  have 2: "pushAggregateSeries example_marshal example_AddRows 1700000000
        [example_series ''1'', empty_series, example_series ''2''] = Inl index_panic"
    using th [where series = "[example_series ''1'', empty_series, example_series ''2'']",
        THEN conjunct2, THEN conjunct2, THEN conjunct1, THEN iffD1, OF ex] .
  have 3: "pushAggregateSeries example_marshal example_AddRows 1700000000
        (map first_sample_only [example_series ''1'', example_series ''2''])
      = pushAggregateSeries example_marshal example_AddRows 1700000000
          [example_series ''1'', example_series ''2'']"
    using th [where series = "[example_series ''1'', example_series ''2'']", THEN conjunct1] .
  show ?thesis
    using 1 2 3 by blast
qed

end
